theory Spec2Isabelle
  imports Main "HOL-Library.AList" "HOL-Library.Word"
begin

section \<open>JavaScript strings\<close>

text \<open>
  The texts of the configuration files (their lines, keys, values and paths) are
  modelled by HOL strings whose characters are the UTF-16 code units of the JavaScript
  string; this covers the strings whose code units are below 256 (ASCII and Latin-1).
  The functions of this section are the built-in string methods that \<open>src/index.ts\<close>
  calls, restricted to that range. The payloads of the tool handlers are modelled in
  full, as lists of 16-bit code units (section Base64).
\<close>

text \<open>White space as \<open>String.prototype.trim\<close> and the regular expression \<open>\s\<close> see it:
  TAB, LF, VT, FF, CR, SP and NBSP.\<close>

definition isWhiteSpace :: "char \<Rightarrow> bool" where
  "isWhiteSpace c = (of_char c \<in> {9, 10, 11, 12, 13, 32, 160 :: nat})"

definition trim :: "string \<Rightarrow> string" where
  "trim s = rev (dropWhile isWhiteSpace (rev (dropWhile isWhiteSpace s)))"

definition lowerChar :: "char \<Rightarrow> char" where
  "lowerChar c =
     (let n = of_char c :: nat
      in if (65 \<le> n \<and> n \<le> 90) \<or> (192 \<le> n \<and> n \<le> 222 \<and> n \<noteq> 215)
         then char_of (n + 32) else c)"

definition toLowerCase :: "string \<Rightarrow> string" where
  "toLowerCase s = map lowerChar s"

definition startsWith :: "string \<Rightarrow> string \<Rightarrow> bool" where
  "startsWith s p = (take (length p) s = p)"

text \<open>\<open>s.split(sep)\<close> for a one-character separator: the pieces between the separators,
  empty pieces included.\<close>

fun jsSplit :: "'a \<Rightarrow> 'a list \<Rightarrow> 'a list list" where
  "jsSplit sep [] = [[]]"
| "jsSplit sep (c # cs) =
     (if c = sep then [] # jsSplit sep cs
      else (case jsSplit sep cs of [] \<Rightarrow> [[c]] | t # ts \<Rightarrow> (c # t) # ts))"

text \<open>\<open>s.split(/\s+/)\<close>: the pieces between the maximal runs of white space; a string
  that starts or ends with white space yields an empty first or last piece.\<close>

fun splitWs :: "string \<Rightarrow> string list" where
  "splitWs [] = [[]]"
| "splitWs (c # cs) =
     (if isWhiteSpace c
      then (case cs of [] \<Rightarrow> [] # splitWs cs
            | d # ds \<Rightarrow> if isWhiteSpace d then splitWs cs else [] # splitWs cs)
      else (case splitWs cs of [] \<Rightarrow> [[c]] | t # ts \<Rightarrow> (c # t) # ts))"

text \<open>\<open>parts.join(sep)\<close>.\<close>

fun jsJoin :: "'a list \<Rightarrow> 'a list list \<Rightarrow> 'a list" where
  "jsJoin sep [] = []"
| "jsJoin sep [x] = x"
| "jsJoin sep (x # y # ys) = x @ sep @ jsJoin sep (y # ys)"

text \<open>\<open>s.replace(pattern, replacement)\<close> with a string pattern replaces the first
  occurrence only. \<open>findFirst\<close> returns the text in front of and behind that occurrence;
  \<open>getSubstitution\<close> expands the \<open>$\<close> patterns of the replacement text (\<open>$$\<close>, \<open>$&\<close>,
  \<open>$`\<close>, \<open>$'\<close>; there are no capture groups, so \<open>$1\<close> stays as it is).\<close>

fun findFirst :: "string \<Rightarrow> string \<Rightarrow> (string \<times> string) option" where
  "findFirst pat [] = (if pat = [] then Some ([], []) else None)"
| "findFirst pat (c # cs) =
     (if startsWith (c # cs) pat then Some ([], drop (length pat) (c # cs))
      else map_option (\<lambda>(front, back). (c # front, back)) (findFirst pat cs))"

fun getSubstitution :: "string \<Rightarrow> string \<Rightarrow> string \<Rightarrow> string \<Rightarrow> string" where
  "getSubstitution matched front back [] = []"
| "getSubstitution matched front back [c] = [c]"
| "getSubstitution matched front back (c # d # r) =
     (if c = CHR ''$'' \<and> d = CHR ''$'' then CHR ''$'' # getSubstitution matched front back r
      else if c = CHR ''$'' \<and> d = CHR ''&'' then matched @ getSubstitution matched front back r
      else if c = CHR ''$'' \<and> d = CHR 0x60 then front @ getSubstitution matched front back r
      else if c = CHR ''$'' \<and> d = CHR 0x27 then back @ getSubstitution matched front back r
      else c # getSubstitution matched front back (d # r))"

definition jsReplace :: "string \<Rightarrow> string \<Rightarrow> string \<Rightarrow> string" where
  "jsReplace s pat replacement =
     (case findFirst pat s of
        None \<Rightarrow> s
      | Some (front, back) \<Rightarrow> front @ getSubstitution pat front back replacement @ back)"

section \<open>Base64\<close>

text \<open>The payloads of the tool handlers (a command, a script, an interpreter) are
  JavaScript strings in full: lists of 16-bit code units, in which a surrogate may stand
  alone. \<open>units\<close> is the JavaScript string of a text of 8-bit characters.\<close>

type_synonym jsString = "16 word list"

definition units :: "string \<Rightarrow> jsString" where
  "units s = map (\<lambda>c. of_nat (of_char c)) s"

definition isHighSurrogate :: "16 word \<Rightarrow> bool" where
  "isHighSurrogate u = (0xD800 \<le> u \<and> u \<le> 0xDBFF)"

definition isLowSurrogate :: "16 word \<Rightarrow> bool" where
  "isLowSurrogate u = (0xDC00 \<le> u \<and> u \<le> 0xDFFF)"

text \<open>The UTF-8 bytes of a code point. Bytes are natural numbers below 256.\<close>

definition utf8 :: "nat \<Rightarrow> nat list" where
  "utf8 cp =
     (if cp < 128 then [cp]
      else if cp < 2048 then [192 + cp div 64, 128 + cp mod 64]
      else if cp < 65536 then [224 + cp div 4096, 128 + cp div 64 mod 64, 128 + cp mod 64]
      else [240 + cp div 262144, 128 + cp div 4096 mod 64, 128 + cp div 64 mod 64, 128 + cp mod 64])"

text \<open>\<open>Buffer.from(s)\<close> encodes a string as UTF-8: a high surrogate and the low surrogate
  behind it are one code point beyond the basic plane; a surrogate that stands alone is
  encoded as the replacement character U+FFFD; every other code unit is its own code
  point.\<close>

definition codePoint :: "16 word \<Rightarrow> nat" where
  "codePoint u = (if isHighSurrogate u \<or> isLowSurrogate u then 65533 else unat u)"

definition pairCodePoint :: "16 word \<Rightarrow> 16 word \<Rightarrow> nat" where
  "pairCodePoint u v = 65536 + (unat u - 55296) * 1024 + (unat v - 56320)"

fun bufferFrom :: "jsString \<Rightarrow> nat list" where
  "bufferFrom [] = []"
| "bufferFrom [u] = utf8 (codePoint u)"
| "bufferFrom (u # v # rest) =
     (if isHighSurrogate u \<and> isLowSurrogate v
      then utf8 (pairCodePoint u v) @ bufferFrom rest
      else utf8 (codePoint u) @ bufferFrom (v # rest))"

definition b64alphabet :: string where
  "b64alphabet = ''ABCDEFGHIJKLMNOPQRSTUVWXYZabcdefghijklmnopqrstuvwxyz0123456789+/''"

definition b64char :: "nat \<Rightarrow> char" where
  "b64char n = b64alphabet ! (n mod 64)"

text \<open>\<open>buffer.toString('base64')\<close>: three bytes become four characters of the alphabet;
  a last group of one or two bytes is padded with \<open>=\<close>.\<close>

fun toBase64 :: "nat list \<Rightarrow> string" where
  "toBase64 [] = []"
| "toBase64 [a] = [b64char (a div 4), b64char ((a mod 4) * 16), CHR ''='', CHR ''='']"
| "toBase64 [a, b] =
     [b64char (a div 4), b64char ((a mod 4) * 16 + b div 16), b64char ((b mod 16) * 4),
      CHR ''='']"
| "toBase64 (a # b # c # rest) =
     [b64char (a div 4), b64char ((a mod 4) * 16 + b div 16),
      b64char ((b mod 16) * 4 + c div 64), b64char (c mod 64)] @ toBase64 rest"

text \<open>The remote side of the pipeline, \<open>base64 -d\<close>: line feeds are dropped, every group
  of four characters gives up to three bytes, and anything outside the alphabet is an
  error (\<open>None\<close>).\<close>

fun indexOf :: "'a \<Rightarrow> 'a list \<Rightarrow> nat option" where
  "indexOf x [] = None"
| "indexOf x (y # ys) = (if x = y then Some 0 else map_option Suc (indexOf x ys))"

definition b64index :: "char \<Rightarrow> nat option" where
  "b64index c = indexOf c b64alphabet"

fun decodeGroups :: "string \<Rightarrow> nat list option" where
  "decodeGroups [] = Some []"
| "decodeGroups (c1 # c2 # c3 # c4 # rest) =
     (case (b64index c1, b64index c2) of
        (Some x1, Some x2) \<Rightarrow>
          if c3 = CHR ''='' \<and> c4 = CHR ''='' \<and> rest = [] then Some [x1 * 4 + x2 div 16]
          else (case b64index c3 of
                  None \<Rightarrow> None
                | Some x3 \<Rightarrow>
                    if c4 = CHR ''='' \<and> rest = []
                    then Some [x1 * 4 + x2 div 16, (x2 mod 16) * 16 + x3 div 4]
                    else (case b64index c4 of
                            None \<Rightarrow> None
                          | Some x4 \<Rightarrow>
                              map_option
                                (\<lambda>bytes. [x1 * 4 + x2 div 16, (x2 mod 16) * 16 + x3 div 4,
                                           (x3 mod 4) * 64 + x4] @ bytes)
                                (decodeGroups rest)))
      | _ \<Rightarrow> None)"
| "decodeGroups _ = None"

definition base64Decode :: "string \<Rightarrow> nat list option" where
  "base64Decode s = decodeGroups (filter (\<lambda>c. c \<noteq> CHR 0x0A) s)"

section \<open>Paths\<close>

text \<open>\<open>path.join\<close> and \<open>path.normalize\<close> of the POSIX flavour of Node's \<open>path\<close> module, on
  the segments between the slashes: empty segments and \<open>.\<close> vanish, \<open>..\<close> removes the
  segment before it (at the root of an absolute path it vanishes; in front of a relative
  path it stays).\<close>

fun normalizeString :: "bool \<Rightarrow> string list \<Rightarrow> string list \<Rightarrow> string list" where
  "normalizeString allowAboveRoot res [] = rev res"
| "normalizeString allowAboveRoot res (seg # segs) =
     (if seg = [] \<or> seg = ''.'' then normalizeString allowAboveRoot res segs
      else if seg = ''..'' then
        (case res of
           [] \<Rightarrow> normalizeString allowAboveRoot (if allowAboveRoot then [''..''] else []) segs
         | lastSeg # up \<Rightarrow>
             if lastSeg = ''..''
             then normalizeString allowAboveRoot (if allowAboveRoot then ''..'' # res else res) segs
             else normalizeString allowAboveRoot up segs)
      else normalizeString allowAboveRoot (seg # res) segs)"

definition normalize :: "string \<Rightarrow> string" where
  "normalize path =
     (if path = [] then ''.''
      else
        (let isAbsolute = startsWith path ''/'';
             trailingSeparator = (last path = CHR ''/'');
             p = jsJoin ''/'' (normalizeString (\<not> isAbsolute) [] (jsSplit (CHR ''/'') path))
         in if p = [] then (if isAbsolute then ''/'' else if trailingSeparator then ''./'' else ''.'')
            else (if isAbsolute then ''/'' else []) @ p @ (if trailingSeparator then ''/'' else [])))"

definition join :: "string list \<Rightarrow> string" where
  "join args =
     (let joined = jsJoin ''/'' (filter (\<lambda>arg. arg \<noteq> []) args)
      in if joined = [] then ''.'' else normalize joined)"

section \<open>The host registry and its parser\<close>

text \<open>A JavaScript number as \<open>parseInt\<close> returns it: \<open>NaN\<close>, an integer that is a
  double, or an infinity.\<close>

datatype jsnum = NaN | Num int | PosInfinity | NegInfinity

text \<open>The Number value of a natural number: the number itself below \<open>2^53\<close>; beyond, the
  nearest number of 53 significant bits, the even one of two that are equally near.
  \<open>None\<close> is a magnitude of \<open>2^1024\<close> or more, which is an infinity. \<open>excessBits\<close> is the
  number of bits in excess of 53.\<close>

function excessBits :: "int \<Rightarrow> nat" where
  "excessBits k = (if k < 2 ^ 53 then 0 else Suc (excessBits (k div 2)))"
  by pat_completeness auto
termination
  by (relation "measure nat") simp_all

declare excessBits.simps [simp del]

definition roundToDouble :: "int \<Rightarrow> int option" where
  "roundToDouble k =
     (let e = excessBits k;
          q = k div 2 ^ e;
          r = k mod 2 ^ e;
          m = (if 2 ^ e < 2 * r \<or> (2 * r = 2 ^ e \<and> odd q) then q + 1 else q)
      in if 2 ^ 1024 \<le> m * 2 ^ e then None else Some (m * 2 ^ e))"

definition toNumber :: "bool \<Rightarrow> int \<Rightarrow> jsnum" where
  "toNumber negative k =
     (case roundToDouble k of
        None \<Rightarrow> (if negative then NegInfinity else PosInfinity)
      | Some m \<Rightarrow> Num (if negative then - m else m))"

text \<open>\<open>parseInt(s)\<close> without a radix: white space, a sign, \<open>0x\<close> for radix 16, then the
  longest run of digits of the radix; \<open>NaN\<close> when that run is empty.\<close>

definition digitValue :: "nat \<Rightarrow> char \<Rightarrow> nat option" where
  "digitValue radix c =
     (let n = of_char c :: nat;
          v = (if 48 \<le> n \<and> n \<le> 57 then Some (n - 48)
               else if 97 \<le> n \<and> n \<le> 122 then Some (n - 87)
               else if 65 \<le> n \<and> n \<le> 90 then Some (n - 55)
               else None)
      in case v of None \<Rightarrow> None | Some d \<Rightarrow> if d < radix then Some d else None)"

definition parseInt :: "string \<Rightarrow> jsnum" where
  "parseInt s =
     (let t = dropWhile isWhiteSpace s;
          negative = startsWith t ''-'';
          t1 = (if startsWith t ''-'' \<or> startsWith t ''+'' then drop 1 t else t);
          hex = (startsWith t1 ''0x'' \<or> startsWith t1 ''0X'');
          radix = (if hex then 16 else 10);
          t2 = (if hex then drop 2 t1 else t1);
          ds = takeWhile (\<lambda>c. digitValue radix c \<noteq> None) t2;
          mathInt = foldl (\<lambda>acc c. acc * int radix + (case digitValue radix c of None \<Rightarrow> 0 | Some d \<Rightarrow> int d)) 0 ds
      in if ds = [] then NaN else toNumber negative mathInt)"

text \<open>\<open>interface SSHHost\<close>. The index signature \<open>[key: string]: any\<close> is the field
  \<open>extra\<close>: the keys stored there are lower-cased and differ from the six keys the
  \<open>switch\<close> handles, so they never collide with a named field.\<close>

record SSHHost =
  host :: string
  hostname :: "string option"
  user :: "string option"
  port :: "jsnum option"
  identityFile :: "string option"
  proxyJump :: "string option"
  extra :: "(string \<times> string) list"

text \<open>\<open>sshHosts: Map<string, SSHHost>\<close>, in insertion order; \<open>AList.update\<close> is \<open>Map.set\<close>
  and \<open>map_of\<close> is \<open>Map.get\<close>.\<close>

type_synonym registry = "(string \<times> SSHHost) list"

text \<open>What the parser reads from its surroundings: \<open>readFile\<close> (\<open>None\<close> when it throws),
  \<open>glob\<close> (\<open>None\<close> when it throws) and \<open>homedir()\<close>.\<close>

record env =
  readFile :: "string \<Rightarrow> string option"
  glob :: "string \<Rightarrow> string list option"
  homedir :: string

text \<open>\<open>currentHost = { host: value }\<close>.\<close>

definition newHost :: "string \<Rightarrow> SSHHost" where
  "newHost v = \<lparr>host = v, hostname = None, user = None, port = None, identityFile = None,
                proxyJump = None, extra = []\<rparr>"

text \<open>\<open>if (currentHost) this.sshHosts.set(currentHost.host, currentHost)\<close>.\<close>

definition saveHost :: "SSHHost option \<Rightarrow> registry \<Rightarrow> registry" where
  "saveHost currentHost sshHosts =
     (case currentHost of None \<Rightarrow> sshHosts | Some h \<Rightarrow> AList.update (host h) h sshHosts)"

text \<open>The \<open>switch (lowerKey)\<close> of \<open>parseSSHConfig\<close>. In the default branch the assignment
  \<open>currentHost[lowerKey] = value\<close> stores nothing for the key \<open>__proto__\<close>: the setter of
  that name ignores a value that is a string.\<close>

definition setProperty :: "env \<Rightarrow> string \<Rightarrow> string \<Rightarrow> SSHHost \<Rightarrow> SSHHost" where
  "setProperty e lowerKey v h =
     (if lowerKey = ''hostname'' then h\<lparr>hostname := Some v\<rparr>
      else if lowerKey = ''user'' then h\<lparr>user := Some v\<rparr>
      else if lowerKey = ''port'' then h\<lparr>port := Some (parseInt v)\<rparr>
      else if lowerKey = ''identityfile'' then h\<lparr>identityFile := Some (jsReplace v ''~'' (homedir e))\<rparr>
      else if lowerKey = ''proxyjump'' then h\<lparr>proxyJump := Some v\<rparr>
      else if lowerKey = ''__proto__'' then h
      else h\<lparr>extra := AList.update lowerKey v (extra h)\<rparr>)"

text \<open>The path an \<open>Include\<close> directive names, as \<open>handleInclude\<close> resolves it.\<close>

definition resolveInclude :: "env \<Rightarrow> string \<Rightarrow> string \<Rightarrow> string" where
  "resolveInclude e includePath basePath =
     jsReplace
       (if \<not> startsWith includePath ''/'' then join [join [basePath, ''..''], includePath]
        else includePath)
       ''~'' (homedir e)"

text \<open>The body of the \<open>for\<close> loop of \<open>parseSSHConfig\<close>, for one line: either the line
  is an \<open>Include\<close> directive, and the body calls \<open>handleInclude\<close> with the path returned
  here (\<open>Inl\<close>), or it leaves the loop's variable \<open>currentHost\<close> and the registry
  \<open>this.sshHosts\<close> as returned here (\<open>Inr\<close>).\<close>

definition parseLine :: "env \<Rightarrow> string \<Rightarrow> SSHHost option \<Rightarrow> registry \<Rightarrow> string + SSHHost option \<times> registry" where
  "parseLine e l currentHost sshHosts =
     (let line = trim l
      in if line = [] \<or> startsWith line ''#'' then Inr (currentHost, sshHosts)
         else if startsWith (toLowerCase line) ''include '' then Inl (trim (drop 8 line))
         else
           (case splitWs line of
              [] \<Rightarrow> Inr (currentHost, sshHosts)
            | key # valueParts \<Rightarrow>
                (let v = jsJoin '' '' valueParts
                 in if toLowerCase key = ''host''
                    then Inr (Some (newHost v), saveHost currentHost sshHosts)
                    else (case currentHost of
                            None \<Rightarrow> Inr (currentHost, sshHosts)
                          | Some h \<Rightarrow>
                              if key \<noteq> [] \<and> v \<noteq> []
                              then Inr (Some (setProperty e (toLowerCase key) v h), sshHosts)
                              else Inr (currentHost, sshHosts)))))"

text \<open>\<open>parseSSHConfig\<close> and \<open>handleInclude\<close>. The two call each other, and nothing bounds
  the nesting of \<open>Include\<close> directives, so the model carries fuel: \<open>handleInclude\<close>
  spends one unit for the file or the glob pattern it opens, and \<open>None\<close> means that the
  fuel did not suffice. \<open>parseLines\<close> is the \<open>for\<close> loop over the lines, with the loop's
  variable \<open>currentHost\<close> and the registry as arguments; \<open>includeFiles\<close> is the loop over
  the files a glob pattern matches. A file that cannot be read, or a pattern that cannot
  be expanded, is skipped (the \<open>catch\<close> blocks only log).\<close>

function (sequential) parseSSHConfig :: "nat \<Rightarrow> env \<Rightarrow> string \<Rightarrow> string \<Rightarrow> registry \<Rightarrow> registry option"
  and parseLines :: "nat \<Rightarrow> env \<Rightarrow> string \<Rightarrow> string list \<Rightarrow> SSHHost option \<Rightarrow> registry \<Rightarrow> registry option"
  and handleInclude :: "nat \<Rightarrow> env \<Rightarrow> string \<Rightarrow> string \<Rightarrow> registry \<Rightarrow> registry option"
  and includeFiles :: "nat \<Rightarrow> env \<Rightarrow> string list \<Rightarrow> registry \<Rightarrow> registry option"
where
  "parseSSHConfig n e content basePath sshHosts =
     parseLines n e basePath (jsSplit (CHR 0x0A) content) None sshHosts"
| "parseLines n e basePath [] currentHost sshHosts = Some (saveHost currentHost sshHosts)"
| "parseLines n e basePath (l # ls) currentHost sshHosts =
     (case parseLine e l currentHost sshHosts of
        Inl includePath \<Rightarrow>
          (case handleInclude n e includePath basePath sshHosts of
             None \<Rightarrow> None
           | Some sshHosts' \<Rightarrow> parseLines n e basePath ls currentHost sshHosts')
      | Inr (currentHost', sshHosts') \<Rightarrow> parseLines n e basePath ls currentHost' sshHosts')"
| "handleInclude 0 e includePath basePath sshHosts = None"
| "handleInclude (Suc n) e includePath basePath sshHosts =
     (let fullPath = resolveInclude e includePath basePath
      in if CHR ''*'' \<in> set fullPath then
           (case glob e fullPath of
              None \<Rightarrow> Some sshHosts
            | Some files \<Rightarrow> includeFiles n e files sshHosts)
         else
           (case readFile e fullPath of
              None \<Rightarrow> Some sshHosts
            | Some includeContent \<Rightarrow> parseSSHConfig n e includeContent fullPath sshHosts))"
| "includeFiles n e [] sshHosts = Some sshHosts"
| "includeFiles n e (file # files) sshHosts =
     (case (case readFile e file of
              None \<Rightarrow> Some sshHosts
            | Some includeContent \<Rightarrow> parseSSHConfig n e includeContent file sshHosts) of
        None \<Rightarrow> None
      | Some sshHosts' \<Rightarrow> includeFiles n e files sshHosts')"
  by pat_completeness auto
termination
  apply (relation "inv_image (less_than <*lex*> less_than <*lex*> less_than)
     (\<lambda>x. case x of
        Inl (Inl (n, e, content, basePath, sshHosts)) \<Rightarrow> (n, 3::nat, 0::nat)
      | Inl (Inr (n, e, basePath, ls, currentHost, sshHosts)) \<Rightarrow> (n, 2, length ls)
      | Inr (Inl (n, e, includePath, basePath, sshHosts)) \<Rightarrow> (n, 1, 0)
      | Inr (Inr (n, e, files, sshHosts)) \<Rightarrow> (n, 4, length files))")
  apply (simp_all add: wf_lex_prod)
  done

text \<open>\<open>loadSSHConfig\<close>: a configuration file that is missing or unreadable leaves the
  registry empty.\<close>

definition loadSSHConfig :: "nat \<Rightarrow> env \<Rightarrow> registry option" where
  "loadSSHConfig n e =
     (let sshConfigPath = join [homedir e, ''.ssh'', ''config'']
      in case readFile e sshConfigPath of
           None \<Rightarrow> Some []
         | Some configContent \<Rightarrow> parseSSHConfig n e configContent sshConfigPath [])"

section \<open>The tool handlers\<close>

datatype ErrorCode = InvalidRequest | MethodNotFound | InternalError

datatype McpError = McpError ErrorCode string

text \<open>What a handler does to the outside and how its promise ends: the processes it
  launched (\<open>spawn\<close> with a program and its arguments, or \<open>exec\<close> with a command line),
  the signals it sent to its child with \<open>child.kill\<close>, and the promise's outcome:
  rejected with an error (\<open>Inl\<close>), resolved with the object that the handler passes to
  \<open>JSON.stringify\<close> (\<open>Inr\<close>), or never settled (\<open>None\<close>).\<close>

datatype process = Spawn string "jsString list" | Exec string

record 'r call =
  launched :: "process list"
  killSignals :: "string list"
  outcome :: "(McpError + 'r) option"

definition hostNotFound :: "string \<Rightarrow> 'r call" where
  "hostNotFound h =
     \<lparr>launched = [], killSignals = [],
      outcome = Some (Inl (McpError InvalidRequest (''Host '' @ [CHR 0x27] @ h @ [CHR 0x27] @ '' not found in SSH config'')))\<rparr>"

text \<open>The child of \<open>spawn\<close> is seen through the callbacks the handler registers: data on
  its output streams, its \<open>close\<close> event with the exit code (\<open>null\<close> when a signal ended
  it), its \<open>error\<close> event, and the expiry of the timer that \<open>setTimeout\<close> armed. A run
  of the handler is the list of these events in the order the event loop delivers them;
  \<open>timeline\<close> below gives that order from the times of the child's events and the delay
  of the timer. The timer's callback runs at most once, and not at all after
  \<open>clearTimeout\<close>.\<close>

datatype event =
    StdoutData string
  | StderrData string
  | Close "int option"
  | ProcessError string
  | TimerExpired

record 'r promiseState =
  stdout :: string
  stderr :: string
  timerArmed :: bool
  killed :: "string list"
  settled :: "(McpError + 'r) option"

definition started :: "'r promiseState" where
  "started = \<lparr>stdout = [], stderr = [], timerArmed = True, killed = [], settled = None\<rparr>"

text \<open>\<open>resolve\<close> and \<open>reject\<close>: a promise keeps its first settlement.\<close>

definition settle :: "McpError + 'r \<Rightarrow> 'r promiseState \<Rightarrow> 'r promiseState" where
  "settle x s = (case settled s of None \<Rightarrow> s\<lparr>settled := Some x\<rparr> | Some y \<Rightarrow> s)"

fun showNat :: "nat \<Rightarrow> string" where
  "showNat n = (if n < 10 then [char_of (48 + n)] else showNat (n div 10) @ [char_of (48 + n mod 10)])"

declare showNat.simps [simp del]

record commandResponse =
  cr_host :: string
  cr_command :: jsString
  cr_exitCode :: "int option"
  cr_stdout :: string
  cr_stderr :: string
  cr_success :: bool
  cr_encoding :: string

text \<open>\<open>executeCommand\<close>: the command line handed to \<open>ssh\<close>, the callbacks, and the
  handler. The timeout is a whole number of seconds.\<close>

definition finalCommand :: "jsString \<Rightarrow> bool \<Rightarrow> jsString" where
  "finalCommand command useBase64 =
     (if useBase64
      then units (''echo '' @ [CHR 0x27] @ toBase64 (bufferFrom command) @ [CHR 0x27] @ '' | base64 -d | bash'')
      else command)"

fun commandEvent :: "string \<Rightarrow> jsString \<Rightarrow> nat \<Rightarrow> bool \<Rightarrow> commandResponse promiseState \<Rightarrow> event \<Rightarrow> commandResponse promiseState" where
  "commandEvent h command timeout useBase64 s (StdoutData d) = s\<lparr>stdout := stdout s @ d\<rparr>"
| "commandEvent h command timeout useBase64 s (StderrData d) = s\<lparr>stderr := stderr s @ d\<rparr>"
| "commandEvent h command timeout useBase64 s TimerExpired =
     (if timerArmed s
      then settle (Inl (McpError InternalError (''Command timed out after '' @ showNat timeout @ '' seconds'')))
             (s\<lparr>timerArmed := False, killed := killed s @ [''SIGTERM'']\<rparr>)
      else s)"
| "commandEvent h command timeout useBase64 s (Close code) =
     settle (Inr \<lparr>cr_host = h,
                  cr_command = (if useBase64 then units ''[Base64 Encoded] '' @ command else command),
                  cr_exitCode = code,
                  cr_stdout = trim (stdout s),
                  cr_stderr = trim (stderr s),
                  cr_success = (code = Some 0),
                  cr_encoding = (if useBase64 then ''base64'' else ''plain'')\<rparr>)
       (s\<lparr>timerArmed := False\<rparr>)"
| "commandEvent h command timeout useBase64 s (ProcessError msg) =
     settle (Inl (McpError InternalError (''SSH execution failed: '' @ msg))) (s\<lparr>timerArmed := False\<rparr>)"

definition executeCommand :: "registry \<Rightarrow> string \<Rightarrow> jsString \<Rightarrow> nat \<Rightarrow> bool \<Rightarrow> event list \<Rightarrow> commandResponse call" where
  "executeCommand sshHosts h command timeout useBase64 events =
     (case map_of sshHosts h of
        None \<Rightarrow> hostNotFound h
      | Some hostConfig \<Rightarrow>
          (let s = foldl (commandEvent h command timeout useBase64) started events
           in \<lparr>launched = [Spawn ''ssh'' [units h, finalCommand command useBase64]],
               killSignals = killed s, outcome = settled s\<rparr>))"

record scriptResponse =
  sr_host :: string
  sr_script :: jsString
  sr_interpreter :: jsString
  sr_exitCode :: "int option"
  sr_stdout :: string
  sr_stderr :: string
  sr_success :: bool
  sr_encoding :: string
  sr_lines :: nat

text \<open>\<open>executeScript\<close>, which always encodes.\<close>

definition scriptCommand :: "jsString \<Rightarrow> jsString \<Rightarrow> jsString" where
  "scriptCommand script interpreter =
     units (''echo '' @ [CHR 0x27] @ toBase64 (bufferFrom script) @ [CHR 0x27] @ '' | base64 -d | '') @ interpreter"

fun scriptEvent :: "string \<Rightarrow> jsString \<Rightarrow> nat \<Rightarrow> jsString \<Rightarrow> scriptResponse promiseState \<Rightarrow> event \<Rightarrow> scriptResponse promiseState" where
  "scriptEvent h script timeout interpreter s (StdoutData d) = s\<lparr>stdout := stdout s @ d\<rparr>"
| "scriptEvent h script timeout interpreter s (StderrData d) = s\<lparr>stderr := stderr s @ d\<rparr>"
| "scriptEvent h script timeout interpreter s TimerExpired =
     (if timerArmed s
      then settle (Inl (McpError InternalError (''Script timed out after '' @ showNat timeout @ '' seconds'')))
             (s\<lparr>timerArmed := False, killed := killed s @ [''SIGTERM'']\<rparr>)
      else s)"
| "scriptEvent h script timeout interpreter s (Close code) =
     settle (Inr \<lparr>sr_host = h,
                  sr_script = jsJoin [10] (take 3 (jsSplit 10 script))
                              @ (if length (jsSplit 10 script) > 3 then units (CHR 0x0A # ''...'') else []),
                  sr_interpreter = interpreter,
                  sr_exitCode = code,
                  sr_stdout = trim (stdout s),
                  sr_stderr = trim (stderr s),
                  sr_success = (code = Some 0),
                  sr_encoding = ''base64'',
                  sr_lines = length (jsSplit 10 script)\<rparr>)
       (s\<lparr>timerArmed := False\<rparr>)"
| "scriptEvent h script timeout interpreter s (ProcessError msg) =
     settle (Inl (McpError InternalError (''SSH script execution failed: '' @ msg))) (s\<lparr>timerArmed := False\<rparr>)"

definition executeScript :: "registry \<Rightarrow> string \<Rightarrow> jsString \<Rightarrow> nat \<Rightarrow> jsString \<Rightarrow> event list \<Rightarrow> scriptResponse call" where
  "executeScript sshHosts h script timeout interpreter events =
     (case map_of sshHosts h of
        None \<Rightarrow> hostNotFound h
      | Some hostConfig \<Rightarrow>
          (let s = foldl (scriptEvent h script timeout interpreter) started events
           in \<lparr>launched = [Spawn ''ssh'' [units h, scriptCommand script interpreter]],
               killSignals = killed s, outcome = settled s\<rparr>))"





text \<open>\<open>listHosts\<close> and \<open>getHostInfo\<close>. \<open>x || y\<close> is \<open>y\<close> when \<open>x\<close> is undefined, an empty
  string, \<open>NaN\<close> or zero.\<close>

record hostSummary =
  hs_alias :: string
  hs_hostname :: string
  hs_user :: "string option"
  hs_port :: jsnum

definition portOrDefault :: "jsnum option \<Rightarrow> jsnum" where
  "portOrDefault p =
     (case p of
        None \<Rightarrow> Num 22
      | Some NaN \<Rightarrow> Num 22
      | Some (Num k) \<Rightarrow> if k \<noteq> 0 then Num k else Num 22
      | Some PosInfinity \<Rightarrow> PosInfinity
      | Some NegInfinity \<Rightarrow> NegInfinity)"

definition hostnameOrAlias :: "string option \<Rightarrow> string \<Rightarrow> string" where
  "hostnameOrAlias hn a = (case hn of None \<Rightarrow> a | Some x \<Rightarrow> if x \<noteq> [] then x else a)"

definition listHosts :: "registry \<Rightarrow> hostSummary list \<times> nat" where
  "listHosts sshHosts =
     (let hosts = map (\<lambda>(a, config). \<lparr>hs_alias = a, hs_hostname = hostnameOrAlias (hostname config) a,
                                        hs_user = user config, hs_port = portOrDefault (port config)\<rparr>)
                      sshHosts
      in (hosts, length hosts))"

definition getHostInfo :: "registry \<Rightarrow> string \<Rightarrow> SSHHost call" where
  "getHostInfo sshHosts h =
     (case map_of sshHosts h of
        None \<Rightarrow> hostNotFound h
      | Some hostConfig \<Rightarrow> \<lparr>launched = [], killSignals = [], outcome = Some (Inr hostConfig)\<rparr>)"

text \<open>\<open>uploadFile\<close> and \<open>downloadFile\<close> run \<open>scp\<close> through \<open>exec\<close>, whose callback gets an
  error unless the command ran and exited with code 0: for a nonzero exit code the
  error's message is \<open>Command failed:\<close> with the command line and the error output, for a
  child that could not be started it is the message of the system error, and for a child
  that wrote more than \<open>maxBuffer\<close> (1 MiB by default) to the named stream, and was killed
  for it, it says so.\<close>

datatype childExit = Exited int string string | SpawnFailed string | BufferExceeded string

definition execError :: "string \<Rightarrow> childExit \<Rightarrow> string option" where
  "execError cmd x =
     (case x of
        Exited code out err \<Rightarrow>
          if code = 0 then None else Some (''Command failed: '' @ cmd @ [CHR 0x0A] @ err)
      | SpawnFailed msg \<Rightarrow> Some msg
      | BufferExceeded stream \<Rightarrow> Some (stream @ '' maxBuffer length exceeded''))"

definition execStdout :: "childExit \<Rightarrow> string" where
  "execStdout x = (case x of Exited code out err \<Rightarrow> out | _ \<Rightarrow> [])"

definition execStderr :: "childExit \<Rightarrow> string" where
  "execStderr x = (case x of Exited code out err \<Rightarrow> err | _ \<Rightarrow> [])"

record transferResponse =
  tr_host :: string
  tr_localPath :: string
  tr_remotePath :: string
  tr_success :: bool
  tr_message :: string
  tr_stdout :: string
  tr_stderr :: string

text \<open>The last argument is how the \<open>scp\<close> child ends; \<open>None\<close> is a child that never ends
  (no timer guards a transfer).\<close>

definition uploadCommand :: "string \<Rightarrow> string \<Rightarrow> string \<Rightarrow> string" where
  "uploadCommand h localPath remotePath =
     ''scp '' @ [CHR 0x22] @ localPath @ [CHR 0x22] @ '' '' @ [CHR 0x22] @ h @ '':'' @ remotePath @ [CHR 0x22]"

definition downloadCommand :: "string \<Rightarrow> string \<Rightarrow> string \<Rightarrow> string" where
  "downloadCommand h remotePath localPath =
     ''scp '' @ [CHR 0x22] @ h @ '':'' @ remotePath @ [CHR 0x22] @ '' '' @ [CHR 0x22] @ localPath @ [CHR 0x22]"

definition uploadFile :: "registry \<Rightarrow> string \<Rightarrow> string \<Rightarrow> string \<Rightarrow> childExit option \<Rightarrow> transferResponse call" where
  "uploadFile sshHosts h localPath remotePath child =
     (case map_of sshHosts h of
        None \<Rightarrow> hostNotFound h
      | Some hostConfig \<Rightarrow>
          (let scpCommand = uploadCommand h localPath remotePath
           in \<lparr>launched = [Exec scpCommand], killSignals = [],
               outcome =
                 (case child of
                    None \<Rightarrow> None
                  | Some x \<Rightarrow>
                      (case execError scpCommand x of
                         Some msg \<Rightarrow> Some (Inl (McpError InternalError (''SCP upload failed: '' @ msg)))
                       | None \<Rightarrow>
                           Some (Inr \<lparr>tr_host = h, tr_localPath = localPath, tr_remotePath = remotePath,
                                       tr_success = True, tr_message = ''File uploaded successfully'',
                                       tr_stdout = trim (execStdout x), tr_stderr = trim (execStderr x)\<rparr>)))\<rparr>))"

definition downloadFile :: "registry \<Rightarrow> string \<Rightarrow> string \<Rightarrow> string \<Rightarrow> childExit option \<Rightarrow> transferResponse call" where
  "downloadFile sshHosts h remotePath localPath child =
     (case map_of sshHosts h of
        None \<Rightarrow> hostNotFound h
      | Some hostConfig \<Rightarrow>
          (let scpCommand = downloadCommand h remotePath localPath
           in \<lparr>launched = [Exec scpCommand], killSignals = [],
               outcome =
                 (case child of
                    None \<Rightarrow> None
                  | Some x \<Rightarrow>
                      (case execError scpCommand x of
                         Some msg \<Rightarrow> Some (Inl (McpError InternalError (''SCP download failed: '' @ msg)))
                       | None \<Rightarrow>
                           Some (Inr \<lparr>tr_host = h, tr_localPath = localPath, tr_remotePath = remotePath,
                                       tr_success = True, tr_message = ''File downloaded successfully'',
                                       tr_stdout = trim (execStdout x), tr_stderr = trim (execStderr x)\<rparr>)))\<rparr>))"

section \<open>The remote side of the encoded pipeline\<close>

text \<open>\<open>ssh\<close> hands the command line to the remote shell. For a line of the shape
  \<open>echo '<text>' | base64 -d | <interpreter>\<close>, where the interpreter is a single word
  of letters, digits and \<open>/ . _ -\<close> (so that the shell reads it as the name of one
  command), the shell takes the text between the two quotes literally (nothing is
  special inside single quotes, and the next single quote ends the word), \<open>echo\<close>
  writes it with a line feed, and \<open>base64 -d\<close> decodes that into the bytes the
  interpreter reads. \<open>interpreterInput\<close> is \<open>None\<close> for a line that does not have this
  shape or whose text does not decode.\<close>

definition isCommandWord :: "jsString \<Rightarrow> bool" where
  "isCommandWord w =
     (w \<noteq> [] \<and>
      list_all (\<lambda>u. (0x30 \<le> u \<and> u \<le> 0x39) \<or> (0x41 \<le> u \<and> u \<le> 0x5A) \<or> (0x61 \<le> u \<and> u \<le> 0x7A)
                    \<or> u = 0x2D \<or> u = 0x2E \<or> u = 0x2F \<or> u = 0x5F) w)"

definition asciiText :: "jsString \<Rightarrow> string option" where
  "asciiText us =
     (if list_all (\<lambda>u. u < 0x80) us then Some (map (\<lambda>u. char_of (unat u)) us) else None)"

definition interpreterInput :: "jsString \<Rightarrow> jsString \<Rightarrow> nat list option" where
  "interpreterInput interpreter commandLine =
     (if isCommandWord interpreter \<and> take 6 commandLine = units (''echo '' @ [CHR 0x27]) then
        (let rest = drop 6 commandLine;
             quoted = takeWhile (\<lambda>u. u \<noteq> 0x27) rest;
             remainder = dropWhile (\<lambda>u. u \<noteq> 0x27) rest
         in if remainder = units ([CHR 0x27] @ '' | base64 -d | '') @ interpreter
            then (case asciiText quoted of
                    None \<Rightarrow> None
                  | Some text \<Rightarrow> base64Decode (text @ [CHR 0x0A]))
            else None)
      else None)"


section \<open>Notions used in the statements\<close>

text \<open>The characters of a Base64 text: the alphabet and the padding character.\<close>

definition isBase64Char :: "char \<Rightarrow> bool" where
  "isBase64Char c = (c \<in> set b64alphabet \<or> c = CHR ''='')"

text \<open>The text that a sequence of bytes is in UTF-8, as a JavaScript string: a code
  point of the basic plane is one code unit, a code point beyond it a pair of
  surrogates. \<open>None\<close> when the bytes are not UTF-8: a wrong or missing continuation
  byte, a code point written with more bytes than it needs, a surrogate, or a number
  above U+10FFFF.\<close>

definition isContinuation :: "nat \<Rightarrow> bool" where
  "isContinuation b = (128 \<le> b \<and> b < 192)"

definition unitsOf :: "nat \<Rightarrow> jsString" where
  "unitsOf cp =
     (if cp < 65536 then [of_nat cp]
      else [of_nat (55296 + (cp - 65536) div 1024), of_nat (56320 + (cp - 65536) mod 1024)])"

fun decodeUtf8 :: "nat list \<Rightarrow> jsString option" where
  "decodeUtf8 [] = Some []"
| "decodeUtf8 (b0 # bs) =
     (if b0 < 128 then map_option (\<lambda>r. unitsOf b0 @ r) (decodeUtf8 bs)
      else if 192 \<le> b0 \<and> b0 < 224 then
        (case bs of
           b1 # r \<Rightarrow>
             (let cp = (b0 - 192) * 64 + (b1 - 128)
              in if isContinuation b1 \<and> 128 \<le> cp
                 then map_option (\<lambda>x. unitsOf cp @ x) (decodeUtf8 r) else None)
         | _ \<Rightarrow> None)
      else if 224 \<le> b0 \<and> b0 < 240 then
        (case bs of
           b1 # b2 # r \<Rightarrow>
             (let cp = (b0 - 224) * 4096 + (b1 - 128) * 64 + (b2 - 128)
              in if isContinuation b1 \<and> isContinuation b2 \<and> 2048 \<le> cp
                    \<and> \<not> (55296 \<le> cp \<and> cp \<le> 57343)
                 then map_option (\<lambda>x. unitsOf cp @ x) (decodeUtf8 r) else None)
         | _ \<Rightarrow> None)
      else if 240 \<le> b0 \<and> b0 < 248 then
        (case bs of
           b1 # b2 # b3 # r \<Rightarrow>
             (let cp = (b0 - 240) * 262144 + (b1 - 128) * 4096 + (b2 - 128) * 64 + (b3 - 128)
              in if isContinuation b1 \<and> isContinuation b2 \<and> isContinuation b3
                    \<and> 65536 \<le> cp \<and> cp \<le> 1114111
                 then map_option (\<lambda>x. unitsOf cp @ x) (decodeUtf8 r) else None)
         | _ \<Rightarrow> None)
      else None)"

text \<open>A JavaScript string with every surrogate that stands alone replaced by U+FFFD
  (\<open>String.prototype.toWellFormed\<close>), and the strings that hold no such surrogate
  (\<open>String.prototype.isWellFormed\<close>).\<close>

fun toWellFormed :: "jsString \<Rightarrow> jsString" where
  "toWellFormed [] = []"
| "toWellFormed [u] = [if isHighSurrogate u \<or> isLowSurrogate u then 0xFFFD else u]"
| "toWellFormed (u # v # rest) =
     (if isHighSurrogate u \<and> isLowSurrogate v then u # v # toWellFormed rest
      else (if isHighSurrogate u \<or> isLowSurrogate u then 0xFFFD else u) # toWellFormed (v # rest))"

definition isWellFormed :: "jsString \<Rightarrow> bool" where
  "isWellFormed s = (toWellFormed s = s)"


definition rejectedWith :: "'r call \<Rightarrow> McpError option" where
  "rejectedWith c = (case outcome c of Some (Inl err) \<Rightarrow> Some err | _ \<Rightarrow> None)"



definition notFoundError :: "string \<Rightarrow> McpError" where
  "notFoundError h =
     McpError InvalidRequest (''Host '' @ [CHR 0x27] @ h @ [CHR 0x27] @ '' not found in SSH config'')"

text \<open>The lines of a configuration document, as the loop of \<open>parseSSHConfig\<close> tells them
  apart. An \<open>Include\<close> line is a line that, trimmed, is neither empty nor a comment and
  starts with \<open>include\<close> and a space, in any case. Any other line that is neither empty
  nor a comment is a directive: its first word, lower-cased, and the rest of its words
  joined by single spaces. A \<open>Host\<close> line is a directive whose first word is \<open>host\<close>.\<close>

definition isIncludeLine :: "string \<Rightarrow> bool" where
  "isIncludeLine l =
     (let line = trim l
      in \<not> (line = [] \<or> startsWith line ''#'') \<and> startsWith (toLowerCase line) ''include '')"

definition directive :: "string \<Rightarrow> (string \<times> string) option" where
  "directive l =
     (let line = trim l
      in if line = [] \<or> startsWith line ''#'' \<or> startsWith (toLowerCase line) ''include '' then None
         else (case splitWs line of
                 [] \<Rightarrow> None
               | key # valueParts \<Rightarrow> Some (toLowerCase key, jsJoin '' '' valueParts)))"

definition isHostLine :: "string \<Rightarrow> bool" where
  "isHostLine l = (case directive l of None \<Rightarrow> False | Some (k, v) \<Rightarrow> k = ''host'')"

definition hostLineValue :: "string \<Rightarrow> string" where
  "hostLineValue l = (case directive l of None \<Rightarrow> [] | Some (k, v) \<Rightarrow> v)"

text \<open>What a line that is not a \<open>Host\<close> line does to the block it stands in: a directive
  with a key and a value sets a property, every other line leaves the block alone.\<close>

definition blockLine :: "env \<Rightarrow> SSHHost \<Rightarrow> string \<Rightarrow> SSHHost" where
  "blockLine e h l =
     (case directive l of
        None \<Rightarrow> h
      | Some (k, v) \<Rightarrow> if k \<noteq> ''host'' \<and> k \<noteq> [] \<and> v \<noteq> [] then setProperty e k v h else h)"

text \<open>The block that a \<open>Host\<close> line opens: the lines up to the next \<open>Host\<close> line; and
  what follows the block.\<close>

definition blockBody :: "string list \<Rightarrow> string list" where
  "blockBody ls = takeWhile (\<lambda>x. \<not> isHostLine x) ls"

definition afterBlock :: "string list \<Rightarrow> string list" where
  "afterBlock ls = dropWhile (\<lambda>x. \<not> isHostLine x) ls"

text \<open>Lines that cannot touch the entry of an alias: no \<open>Include\<close> line, and no \<open>Host\<close>
  line that declares the alias.\<close>

definition leavesAlias :: "string \<Rightarrow> string \<Rightarrow> bool" where
  "leavesAlias a l = (\<not> isIncludeLine l \<and> (if isHostLine l then hostLineValue l \<noteq> a else True))"

text \<open>A word: not empty and free of white space.\<close>

definition isWord :: "string \<Rightarrow> bool" where
  "isWord w = (w \<noteq> [] \<and> list_all (\<lambda>c. \<not> isWhiteSpace c) w)"

text \<open>A configuration whose primary document declares the alias \<open>a\<close> and then, inside
  that block, includes a file that declares \<open>a\<close> again.\<close>

definition extraFile :: string where
  "extraFile = ''Host a'' @ [CHR 0x0A] @ ''HostName second'' @ [CHR 0x0A] @ ''User u2''"

definition overrideEnv :: env where
  "overrideEnv =
     \<lparr>readFile = (\<lambda>p. if p = ''/home/u/.ssh/extra'' then Some extraFile else None),
      glob = (\<lambda>p. None),
      homedir = ''/home/u''\<rparr>"

definition overridePrimary :: string where
  "overridePrimary = ''Host a'' @ [CHR 0x0A] @ ''HostName first'' @ [CHR 0x0A] @ ''Include extra''"

text \<open>A document that declares the alias \<open>a\<close> twice and then another alias, and an
  environment without files.\<close>

definition duplicateDoc :: string where
  "duplicateDoc =
     ''Host a'' @ [CHR 0x0A] @ ''  User old'' @ [CHR 0x0A] @ ''Host a'' @ [CHR 0x0A] @ ''  HostName new''
       @ [CHR 0x0A] @ ''Host b''"

definition noFilesEnv :: env where
  "noFilesEnv = \<lparr>readFile = (\<lambda>p. None), glob = (\<lambda>p. None), homedir = ''/home/u''\<rparr>"

text \<open>The blocks of a parse in the order in which they are committed to the registry,
  each as the complete record that its \<open>Host\<close> line and the lines of its body build. A
  block is committed when the next \<open>Host\<close> line of its own document is read, or at the
  end of that document; the blocks of an included file are committed where its
  \<open>Include\<close> line stands, so in front of the block that the line stands in. The fuel
  bounds the depth of the includes as it does for the parser.\<close>

definition closedBlock :: "SSHHost option \<Rightarrow> SSHHost list" where
  "closedBlock cur = (case cur of None \<Rightarrow> [] | Some h \<Rightarrow> [h])"

function (sequential) committedBlocks :: "nat \<Rightarrow> env \<Rightarrow> string \<Rightarrow> string \<Rightarrow> SSHHost list option"
  and blocksOfLines :: "nat \<Rightarrow> env \<Rightarrow> string \<Rightarrow> string list \<Rightarrow> SSHHost option \<Rightarrow> SSHHost list option"
  and blocksOfInclude :: "nat \<Rightarrow> env \<Rightarrow> string \<Rightarrow> string \<Rightarrow> SSHHost list option"
  and blocksOfFiles :: "nat \<Rightarrow> env \<Rightarrow> string list \<Rightarrow> SSHHost list option"
where
  "committedBlocks n e content basePath = blocksOfLines n e basePath (jsSplit (CHR 0x0A) content) None"
| "blocksOfLines n e basePath [] cur = Some (closedBlock cur)"
| "blocksOfLines n e basePath (l # ls) cur =
     (if isIncludeLine l then
        (case blocksOfInclude n e (trim (drop 8 (trim l))) basePath of
           None \<Rightarrow> None
         | Some included \<Rightarrow>
             (case blocksOfLines n e basePath ls cur of
                None \<Rightarrow> None
              | Some later \<Rightarrow> Some (included @ later)))
      else if isHostLine l then
        (case blocksOfLines n e basePath ls (Some (newHost (hostLineValue l))) of
           None \<Rightarrow> None
         | Some later \<Rightarrow> Some (closedBlock cur @ later))
      else blocksOfLines n e basePath ls (map_option (\<lambda>h. blockLine e h l) cur))"
| "blocksOfInclude 0 e includePath basePath = None"
| "blocksOfInclude (Suc n) e includePath basePath =
     (let fullPath = resolveInclude e includePath basePath
      in if CHR ''*'' \<in> set fullPath then
           (case glob e fullPath of None \<Rightarrow> Some [] | Some files \<Rightarrow> blocksOfFiles n e files)
         else
           (case readFile e fullPath of
              None \<Rightarrow> Some []
            | Some includeContent \<Rightarrow> committedBlocks n e includeContent fullPath))"
| "blocksOfFiles n e [] = Some []"
| "blocksOfFiles n e (file # files) =
     (case (case readFile e file of
              None \<Rightarrow> Some []
            | Some includeContent \<Rightarrow> committedBlocks n e includeContent file) of
        None \<Rightarrow> None
      | Some included \<Rightarrow>
          (case blocksOfFiles n e files of None \<Rightarrow> None | Some later \<Rightarrow> Some (included @ later)))"
  by pat_completeness auto
termination
  apply (relation "inv_image (less_than <*lex*> less_than <*lex*> less_than)
     (\<lambda>x. case x of
        Inl (Inl (n, e, content, basePath)) \<Rightarrow> (n, 3::nat, 0::nat)
      | Inl (Inr (n, e, basePath, ls, cur)) \<Rightarrow> (n, 2, length ls)
      | Inr (Inl (n, e, includePath, basePath)) \<Rightarrow> (n, 1, 0)
      | Inr (Inr (n, e, files)) \<Rightarrow> (n, 4, length files))")
  apply (simp_all add: wf_lex_prod)
  done

text \<open>The registry after the blocks are committed in order, each overwriting the entry
  of its alias.\<close>

definition commitBlocks :: "registry \<Rightarrow> SSHHost list \<Rightarrow> registry" where
  "commitBlocks sshHosts bs = foldl (\<lambda>r h. AList.update (host h) h r) sshHosts bs"

text \<open>The alias of the block that is open behind some lines of a document: the value of
  the last \<open>Host\<close> line among them.\<close>

definition openAlias :: "string list \<Rightarrow> string option" where
  "openAlias ls = map_option hostLineValue (find isHostLine (rev ls))"

text \<open>The primary document of above with another block between the block of \<open>a\<close> and the
  \<open>Include\<close> line: the included file is read when the block of \<open>a\<close> is committed.\<close>

definition laterIncludePrimary :: string where
  "laterIncludePrimary =
     ''Host a'' @ [CHR 0x0A] @ ''HostName first'' @ [CHR 0x0A] @ ''Host b'' @ [CHR 0x0A] @ ''Include extra''"

text \<open>The file that an \<open>Include\<close> line of a document with the given base path opens, with
  its path, when the line names one file (not a pattern) that can be read.\<close>

definition includedFile :: "env \<Rightarrow> string \<Rightarrow> string \<Rightarrow> (string \<times> string) option" where
  "includedFile e l basePath =
     (let fullPath = resolveInclude e (trim (drop 8 (trim l))) basePath
      in if CHR ''*'' \<in> set fullPath then None
         else map_option (\<lambda>includeContent. (includeContent, fullPath)) (readFile e fullPath))"

text \<open>The files that the \<open>Include\<close> lines of a document make \<open>handleInclude\<close> open, when
  the document is parsed with the given base path: for every \<open>Include\<close> line the resolved
  path or, for a pattern, the files that \<open>glob\<close> returns.\<close>

definition includeTargets :: "env \<Rightarrow> string \<Rightarrow> string \<Rightarrow> string list" where
  "includeTargets e content basePath =
     concat (map (\<lambda>l. if isIncludeLine l
                       then (let fullPath = resolveInclude e (trim (drop 8 (trim l))) basePath
                             in if CHR ''*'' \<in> set fullPath
                                then (case glob e fullPath of None \<Rightarrow> [] | Some files \<Rightarrow> files)
                                else [fullPath])
                       else [])
                 (jsSplit (CHR 0x0A) content))"

text \<open>The load returns when some amount of fuel suffices.\<close>

definition loadReturns :: "env \<Rightarrow> bool" where
  "loadReturns e = (\<exists>n. loadSSHConfig n e \<noteq> None)"

text \<open>A primary configuration file that includes itself.\<close>

definition selfIncludeEnv :: env where
  "selfIncludeEnv =
     \<lparr>readFile = (\<lambda>p. if p = ''/home/u/.ssh/config'' then Some ''Include config'' else None),
      glob = (\<lambda>p. None),
      homedir = ''/home/u''\<rparr>"

text \<open>A primary configuration file that includes a file without \<open>Include\<close> lines, and
  a rank of the files that decreases along that \<open>Include\<close>.\<close>

definition chainEnv :: env where
  "chainEnv =
     \<lparr>readFile = (\<lambda>p. if p = ''/home/u/.ssh/config'' then Some ''Include extra''
                       else if p = ''/home/u/.ssh/extra'' then Some ''Host a''
                       else None),
      glob = (\<lambda>p. None),
      homedir = ''/home/u''\<rparr>"

definition chainRank :: "string \<Rightarrow> nat" where
  "chainRank p = (if p = ''/home/u/.ssh/config'' then 1 else 0)"




text \<open>A numeric string: decimal digits only, at least one.\<close>

definition isDecimalDigit :: "char \<Rightarrow> bool" where
  "isDecimalDigit c = (48 \<le> (of_char c :: nat) \<and> (of_char c :: nat) \<le> 57)"

definition numericString :: "string \<Rightarrow> bool" where
  "numericString v = (v \<noteq> [] \<and> list_all isDecimalDigit v)"

text \<open>The integer that a run of decimal digits writes.\<close>

definition decimalValue :: "string \<Rightarrow> int" where
  "decimalValue ds = foldl (\<lambda>acc c. acc * 10 + (int (of_char c) - 48)) 0 ds"

text \<open>Hexadecimal digits, in either case, and the integer that a run of them writes.\<close>

definition isHexDigit :: "char \<Rightarrow> bool" where
  "isHexDigit c =
     (let n = of_char c :: nat in (48 \<le> n \<and> n \<le> 57) \<or> (97 \<le> n \<and> n \<le> 102) \<or> (65 \<le> n \<and> n \<le> 70))"

definition hexDigit :: "char \<Rightarrow> int" where
  "hexDigit c = (let n = int (of_char c) in if n \<le> 57 then n - 48 else if 97 \<le> n then n - 87 else n - 55)"

definition hexValue :: "string \<Rightarrow> int" where
  "hexValue hs = foldl (\<lambda>acc c. acc * 16 + hexDigit c) 0 hs"

text \<open>Whether \<open>parseInt\<close> finds an integer at the start of a text: after white space and
  an optional sign, a hexadecimal digit behind \<open>0x\<close> or \<open>0X\<close>, or else a decimal digit.\<close>

definition startsWithInteger :: "string \<Rightarrow> bool" where
  "startsWithInteger v =
     (let t = dropWhile isWhiteSpace v;
          t1 = (if startsWith t ''-'' \<or> startsWith t ''+'' then drop 1 t else t)
      in if startsWith t1 ''0x'' \<or> startsWith t1 ''0X''
         then (case drop 2 t1 of [] \<Rightarrow> False | c # cs \<Rightarrow> digitValue 16 c \<noteq> None)
         else (case t1 of [] \<Rightarrow> False | c # cs \<Rightarrow> digitValue 10 c \<noteq> None))"

text \<open>A record and a registry with the ports blanked out: two registries that agree up
  to the \<open>port\<close> fields of their records have the same image.\<close>

definition withoutPort :: "SSHHost \<Rightarrow> SSHHost" where
  "withoutPort h = h\<lparr>port := None\<rparr>"

definition erasePorts :: "registry \<Rightarrow> registry" where
  "erasePorts r = map (\<lambda>(a, h). (a, withoutPort h)) r"

text \<open>A block with a \<open>Port\<close> line whose value starts with digits but is not a number, and
  one whose value holds no digit at all.\<close>

definition portDoc :: "string \<Rightarrow> string" where
  "portDoc v = ''Host a'' @ [CHR 0x0A] @ ''  Port '' @ v @ [CHR 0x0A] @ ''  User u''"


section \<open>Base64 encoding: round trip and alphabet\<close>

lemma indexOf_nth: "distinct xs \<Longrightarrow> n < length xs \<Longrightarrow> indexOf (xs ! n) xs = Some n"
proof (induction xs arbitrary: n)
  case Nil then show ?case by simp
next
  case (Cons y ys)
  show ?case
  proof (cases n)
    case 0 then show ?thesis by simp
  next
    case (Suc m)
    with Cons.prems have "ys ! m \<in> set ys" "y \<notin> set ys" "distinct ys" "m < length ys" by auto
    then have "ys ! m \<noteq> y" by auto
    with Suc Cons.IH[of m] \<open>distinct ys\<close> \<open>m < length ys\<close> show ?thesis by simp
  qed
qed

lemma b64alphabet_length: "length b64alphabet = 64" by (simp add: b64alphabet_def)
lemma b64alphabet_distinct: "distinct b64alphabet" by (simp add: b64alphabet_def)

lemma b64index_b64char: "b64index (b64char n) = Some (n mod 64)"
  unfolding b64index_def b64char_def
  by (rule indexOf_nth) (simp_all add: b64alphabet_distinct b64alphabet_length)

lemma b64char_in_alphabet: "b64char n \<in> set b64alphabet"
  unfolding b64char_def by (rule nth_mem) (simp add: b64alphabet_length)

lemma pad_not_in_alphabet: "CHR ''='' \<notin> set b64alphabet" by (simp add: b64alphabet_def)
lemma b64char_not_pad: "b64char n \<noteq> CHR ''=''"
  using b64char_in_alphabet[of n] pad_not_in_alphabet by metis

lemma decodeGroups_toBase64: "list_all (\<lambda>b. b < 256) bs \<Longrightarrow> decodeGroups (toBase64 bs) = Some bs"
proof (induction bs rule: toBase64.induct)
  case 1 then show ?case by simp
next
  case (2 a)
  then have "a < 256" by simp
  then have "a div 4 mod 64 = a div 4" "(a mod 4) * 16 mod 64 = (a mod 4) * 16" by auto
  moreover have "a div 4 * 4 + a mod 4 * 16 div 16 = a" by simp
  ultimately show ?case by (simp add: b64index_b64char)
next
  case (3 a b)
  then have ab: "a < 256" "b < 256" by simp_all
  then have m: "a div 4 mod 64 = a div 4" "((a mod 4) * 16 + b div 16) mod 64 = (a mod 4) * 16 + b div 16"
     "(b mod 16) * 4 mod 64 = (b mod 16) * 4" by auto
  have "a div 4 * 4 + (a mod 4 * 16 + b div 16) div 16 = a" using ab by simp
  moreover have "(a mod 4 * 16 + b div 16) mod 16 * 16 + b mod 16 * 4 div 4 = b" using ab by simp
  ultimately show ?case by (simp add: b64index_b64char b64char_not_pad m)
next
  case (4 a b c rest)
  then have abc: "a < 256" "b < 256" "c < 256" and r: "list_all (\<lambda>b. b < 256) rest" by simp_all
  then have m: "a div 4 mod 64 = a div 4" "((a mod 4) * 16 + b div 16) mod 64 = (a mod 4) * 16 + b div 16"
     "((b mod 16) * 4 + c div 64) mod 64 = (b mod 16) * 4 + c div 64" by auto
  have "a div 4 * 4 + (a mod 4 * 16 + b div 16) div 16 = a" using abc by simp
  moreover have "(a mod 4 * 16 + b div 16) mod 16 * 16 + (b mod 16 * 4 + c div 64) div 4 = b" using abc by simp
  moreover have "(b mod 16 * 4 + c div 64) mod 4 * 64 + c mod 64 = c" using abc by simp
  ultimately show ?case using "4.IH"[OF r] by (simp add: b64index_b64char b64char_not_pad m)
qed


lemma unat_unit: "unat (u :: 16 word) < 65536"
  using unsigned_less[of u, where 'a=nat] by simp

lemma isHighSurrogate_nat: "isHighSurrogate u \<longleftrightarrow> 55296 \<le> unat u \<and> unat u \<le> 56319"
  by (simp add: isHighSurrogate_def word_le_nat_alt)

lemma isLowSurrogate_nat: "isLowSurrogate u \<longleftrightarrow> 56320 \<le> unat u \<and> unat u \<le> 57343"
  by (simp add: isLowSurrogate_def word_le_nat_alt)

lemma codePoint_scalar:
  "codePoint u < 1114112 \<and> \<not> (55296 \<le> codePoint u \<and> codePoint u \<le> 57343)"
  using unat_unit[of u] by (auto simp: codePoint_def isHighSurrogate_nat isLowSurrogate_nat)

lemma pairCodePoint_scalar:
  assumes "isHighSurrogate u" and "isLowSurrogate v"
  shows "65536 \<le> pairCodePoint u v \<and> pairCodePoint u v < 1114112"
  using assms by (auto simp: pairCodePoint_def isHighSurrogate_nat isLowSurrogate_nat)

lemma unitsOf_codePoint:
  "unitsOf (codePoint u) = [if isHighSurrogate u \<or> isLowSurrogate u then 0xFFFD else u]"
  using unat_unit[of u] by (simp add: unitsOf_def codePoint_def)

lemma unitsOf_pairCodePoint:
  assumes "isHighSurrogate u" and "isLowSurrogate v"
  shows "unitsOf (pairCodePoint u v) = [u, v]"
proof -
  from assms have u: "55296 \<le> unat u" and v: "56320 \<le> unat v" "unat v - 56320 < 1024"
    by (auto simp: isHighSurrogate_nat isLowSurrogate_nat)
  have a: "pairCodePoint u v - 65536 = (unat u - 55296) * 1024 + (unat v - 56320)"
    by (simp add: pairCodePoint_def)
  have d: "((unat u - 55296) * 1024 + (unat v - 56320)) div 1024 = unat u - 55296"
    using v(2) by simp
  have m: "((unat u - 55296) * 1024 + (unat v - 56320)) mod 1024 = unat v - 56320"
    using v(2) by simp
  have "\<not> pairCodePoint u v < 65536" by (simp add: pairCodePoint_def)
  then show ?thesis unfolding unitsOf_def a d m using u v(1) by simp
qed

lemma scale64: "n div 64 * (64 * k) + n mod 64 * k = n * (k :: nat)"
proof -
  have "(n div 64 * 64 + n mod 64) * k = n div 64 * 64 * k + n mod 64 * k"
    by (rule add_mult_distrib)
  then have "n * k = n div 64 * 64 * k + n mod 64 * k"
    by (simp only: div_mult_mod_eq)
  then show ?thesis by (simp only: mult.assoc)
qed

lemma three_bytes: "cp div 4096 * 4096 + cp div 64 mod 64 * 64 + cp mod 64 = (cp :: nat)"
proof -
  have d: "cp div 4096 = cp div 64 div 64" by (simp add: div_mult2_eq[symmetric])
  have "cp div 64 div 64 * 4096 + cp div 64 mod 64 * 64 = cp div 64 * 64"
    using scale64[of "cp div 64" 64] by simp
  then show ?thesis unfolding d by simp
qed

lemma four_bytes:
  "cp div 262144 * 262144 + cp div 4096 mod 64 * 4096 + cp div 64 mod 64 * 64 + cp mod 64 = (cp :: nat)"
proof -
  have d: "cp div 262144 = cp div 4096 div 64" by (simp add: div_mult2_eq[symmetric])
  have "cp div 4096 div 64 * 262144 + cp div 4096 mod 64 * 4096 = cp div 4096 * 4096"
    using scale64[of "cp div 4096" 4096] by simp
  then have "cp div 262144 * 262144 + cp div 4096 mod 64 * 4096 + cp div 64 mod 64 * 64 + cp mod 64
                  = cp div 4096 * 4096 + cp div 64 mod 64 * 64 + cp mod 64"
    unfolding d by simp
  then show ?thesis by (simp only: three_bytes)
qed

lemma decodeUtf8_utf8:
  assumes "cp < 1114112" and "\<not> (55296 \<le> cp \<and> cp \<le> 57343)"
  shows "decodeUtf8 (utf8 cp @ bs) = map_option (\<lambda>r. unitsOf cp @ r) (decodeUtf8 bs)"
proof -
  consider "cp < 128" | "128 \<le> cp" "cp < 2048" | "2048 \<le> cp" "cp < 65536" | "65536 \<le> cp"
    by linarith
  then show ?thesis
  proof cases
    case 1
    then show ?thesis by (simp add: utf8_def)
  next
    case 2
    then have a: "cp div 64 < 32" by simp
    have b: "cp div 64 * 64 + cp mod 64 = cp" by simp
    from 2 show ?thesis by (simp add: utf8_def isContinuation_def Let_def a b)
  next
    case 3
    then have a: "cp div 4096 < 16" by simp
    have b: "cp div 4096 * 4096 + cp div 64 mod 64 * 64 + cp mod 64 = cp"
      by (rule three_bytes)
    from 3 assms(2) show ?thesis by (simp add: utf8_def isContinuation_def Let_def a b)
  next
    case 4
    with assms(1) have a: "cp div 262144 < 8" by simp
    have b: "cp div 262144 * 262144 + cp div 4096 mod 64 * 4096 + cp div 64 mod 64 * 64 + cp mod 64 = cp"
      by (rule four_bytes)
    from 4 assms(1) show ?thesis by (simp add: utf8_def isContinuation_def Let_def a b)
  qed
qed

lemma decodeUtf8_bufferFrom: "decodeUtf8 (bufferFrom s) = Some (toWellFormed s)"
proof (induction s rule: bufferFrom.induct)
  case 1
  show ?case by simp
next
  case (2 u)
  from codePoint_scalar[of u] decodeUtf8_utf8[of "codePoint u" "[]"] show ?case
    by (simp add: unitsOf_codePoint)
next
  case (3 u v rest)
  show ?case
  proof (cases "isHighSurrogate u \<and> isLowSurrogate v")
    case True
    then have p: "pairCodePoint u v < 1114112" "\<not> (55296 \<le> pairCodePoint u v \<and> pairCodePoint u v \<le> 57343)"
      using pairCodePoint_scalar[of u v] by auto
    have b: "bufferFrom (u # v # rest) = utf8 (pairCodePoint u v) @ bufferFrom rest"
      using True by simp
    have w: "toWellFormed (u # v # rest) = u # v # toWellFormed rest"
      using True by simp
    from True "3.IH"(1)[OF True] decodeUtf8_utf8[OF p, of "bufferFrom rest"] show ?thesis
      unfolding b w by (simp add: unitsOf_pairCodePoint)
  next
    case False
    have b: "bufferFrom (u # v # rest) = utf8 (codePoint u) @ bufferFrom (v # rest)"
      by (simp only: bufferFrom.simps False if_False)
    have w: "toWellFormed (u # v # rest)
               = (if isHighSurrogate u \<or> isLowSurrogate u then 0xFFFD else u) # toWellFormed (v # rest)"
      by (simp only: toWellFormed.simps False if_False)
    from "3.IH"(2)[OF False] codePoint_scalar[of u] decodeUtf8_utf8[of "codePoint u" "bufferFrom (v # rest)"]
    show ?thesis unfolding b w by (simp add: unitsOf_codePoint)
  qed
qed

lemma utf8_bytes: "cp < 2097152 \<Longrightarrow> list_all (\<lambda>b. b < 256) (utf8 cp)"
  by (auto simp: utf8_def)

lemma bufferFrom_bytes: "list_all (\<lambda>b. b < 256) (bufferFrom s)"
proof (induction s rule: bufferFrom.induct)
  case 1 show ?case by simp
next
  case (2 u)
  from codePoint_scalar[of u] show ?case by (simp add: utf8_bytes)
next
  case (3 u v rest)
  show ?case
  proof (cases "isHighSurrogate u \<and> isLowSurrogate v")
    case True
    have b: "bufferFrom (u # v # rest) = utf8 (pairCodePoint u v) @ bufferFrom rest"
      using True by simp
    from True pairCodePoint_scalar[of u v] "3.IH"(1)[OF True] show ?thesis
      unfolding b by (simp add: utf8_bytes)
  next
    case False
    have b: "bufferFrom (u # v # rest) = utf8 (codePoint u) @ bufferFrom (v # rest)"
      by (simp only: bufferFrom.simps False if_False)
    from codePoint_scalar[of u] "3.IH"(2)[OF False] show ?thesis
      unfolding b by (simp add: utf8_bytes)
  qed
qed
lemma toBase64_chars: "list_all isBase64Char (toBase64 bs)"
  by (induction bs rule: toBase64.induct) (simp_all add: isBase64Char_def b64char_in_alphabet)

lemma isBase64Char_not_quote: "isBase64Char c \<Longrightarrow> c \<noteq> CHR 0x27"
  by (auto simp: isBase64Char_def b64alphabet_def)

lemma isBase64Char_not_space: "isBase64Char c \<Longrightarrow> \<not> isWhiteSpace c"
  by (auto simp: isBase64Char_def b64alphabet_def isWhiteSpace_def)

lemma isBase64Char_not_newline: "isBase64Char c \<Longrightarrow> c \<noteq> CHR 0x0A"
  by (auto simp: isBase64Char_def b64alphabet_def)

lemma toBase64_no_quote: "CHR 0x27 \<notin> set (toBase64 bs)"
  using toBase64_chars[of bs] isBase64Char_not_quote by (auto simp: list_all_iff)

lemma toBase64_no_space: "list_all (\<lambda>c. \<not> isWhiteSpace c) (toBase64 bs)"
  using toBase64_chars[of bs] isBase64Char_not_space by (auto simp: list_all_iff)

lemma toBase64_no_newline: "CHR 0x0A \<notin> set (toBase64 bs)"
  using toBase64_chars[of bs] isBase64Char_not_newline by (auto simp: list_all_iff)

lemma base64Decode_echo: "list_all (\<lambda>b. b < 256) bs \<Longrightarrow> base64Decode (toBase64 bs @ [CHR 0x0A]) = Some bs"
proof -
  assume b: "list_all (\<lambda>b. b < 256) bs"
  have "filter (\<lambda>c. c \<noteq> CHR 0x0A) (toBase64 bs) = toBase64 bs"
    using toBase64_no_newline[of bs] by (auto simp: filter_id_conv)
  then show ?thesis using decodeGroups_toBase64[OF b] by (simp add: base64Decode_def)
qed

text \<open>The code units of an 8-bit text.\<close>

lemma unat_unit_of_char: "unat (of_nat (of_char c) :: 16 word) = of_char c"
proof -
  have "(of_char c :: nat) < 2 ^ LENGTH(16)"
    using order_less_trans[of "of_char c :: nat" 256 65536] by simp
  then show ?thesis by (simp only: unat_of_nat mod_less)
qed

lemma unit_of_char_eq: "(of_nat (of_char c) :: 16 word) = of_nat (of_char d) \<longleftrightarrow> c = d"
proof
  assume "(of_nat (of_char c) :: 16 word) = of_nat (of_char d)"
  then have "unat (of_nat (of_char c) :: 16 word) = unat (of_nat (of_char d) :: 16 word)" by simp
  then show "c = d" by (simp only: unat_unit_of_char of_char_eq_iff)
qed simp

lemma unit_quote_iff: "(of_nat (of_char c) :: 16 word) = 0x27 \<longleftrightarrow> c = CHR 0x27"
  using unit_of_char_eq[of c "CHR 0x27"] by simp

lemma units_append: "units (a @ b) = units a @ units b"
  by (simp add: units_def)

lemma units_no_quote: "CHR 0x27 \<notin> set s \<Longrightarrow> \<forall>u\<in>set (units s). u \<noteq> 0x27"
  by (induction s) (auto simp: units_def unit_quote_iff)

lemma isBase64Char_ascii: "isBase64Char c \<Longrightarrow> (of_char c :: nat) < 128"
  by (auto simp: isBase64Char_def b64alphabet_def)

lemma asciiText_units:
  "list_all (\<lambda>c. (of_char c :: nat) < 128) s \<Longrightarrow> asciiText (units s) = Some s"
proof -
  assume a: "list_all (\<lambda>c. (of_char c :: nat) < 128) s"
  have l: "list_all (\<lambda>u. u < 0x80) (units s)"
    using a by (induction s) (simp_all add: units_def word_less_nat_alt unat_unit_of_char)
  have m: "map (\<lambda>u. char_of (unat u)) (units s) = s"
    by (induction s) (simp_all add: units_def unat_unit_of_char)
  show ?thesis using l m by (simp add: asciiText_def)
qed

lemma isCommandWord_bash: "isCommandWord (units ''bash'')"
  by (simp add: isCommandWord_def units_def)

lemma interpreterInput_pipeline:
  assumes "list_all (\<lambda>b. b < 256) bs" and "isCommandWord interpreter"
  shows "interpreterInput interpreter
           (units (''echo '' @ [CHR 0x27] @ toBase64 bs @ [CHR 0x27] @ '' | base64 -d | '') @ interpreter)
         = Some bs"
proof -
  let ?E = "toBase64 bs"
  let ?tail = "units ([CHR 0x27] @ '' | base64 -d | '') @ interpreter"
  have line: "units (''echo '' @ [CHR 0x27] @ ?E @ [CHR 0x27] @ '' | base64 -d | '') @ interpreter
                = units (''echo '' @ [CHR 0x27]) @ units ?E @ ?tail"
    by (simp add: units_def)
  have six: "length (units (''echo '' @ [CHR 0x27])) = 6" by (simp add: units_def)
  have tk: "take 6 (units (''echo '' @ [CHR 0x27]) @ units ?E @ ?tail) = units (''echo '' @ [CHR 0x27])"
    using six by simp
  have dr: "drop 6 (units (''echo '' @ [CHR 0x27]) @ units ?E @ ?tail) = units ?E @ ?tail"
    using six by simp
  have q: "\<forall>u\<in>set (units ?E). u \<noteq> 0x27" by (rule units_no_quote[OF toBase64_no_quote])
  have hd: "?tail = 0x27 # units '' | base64 -d | '' @ interpreter" by (simp add: units_def)
  have t: "takeWhile (\<lambda>u. u \<noteq> 0x27) (units ?E @ ?tail) = units ?E"
    unfolding hd using q by (simp add: takeWhile_append2)
  have d: "dropWhile (\<lambda>u. u \<noteq> 0x27) (units ?E @ ?tail) = ?tail"
    unfolding hd using q by (simp add: dropWhile_append2)
  have "list_all (\<lambda>c. (of_char c :: nat) < 128) ?E"
    using toBase64_chars[of bs] isBase64Char_ascii by (auto simp: list_all_iff)
  then have a: "asciiText (units ?E) = Some ?E" by (rule asciiText_units)
  show ?thesis
    unfolding interpreterInput_def line tk dr Let_def t d a
    using assms(2) base64Decode_echo[OF assms(1)] by simp
qed

lemma finalCommand_input:
  "interpreterInput (units ''bash'') (finalCommand payload True) = Some (bufferFrom payload)"
proof -
  have fc: "finalCommand payload True
              = units (''echo '' @ [CHR 0x27] @ toBase64 (bufferFrom payload) @ [CHR 0x27] @ '' | base64 -d | '')
                @ units ''bash''"
    by (simp add: finalCommand_def units_def)
  show ?thesis
    unfolding fc by (rule interpreterInput_pipeline[OF bufferFrom_bytes isCommandWord_bash])
qed

lemma scriptCommand_input:
  "isCommandWord interpreter \<Longrightarrow>
   interpreterInput interpreter (scriptCommand payload interpreter) = Some (bufferFrom payload)"
  unfolding scriptCommand_def by (rule interpreterInput_pipeline[OF bufferFrom_bytes])

text \<open>
  Claim C3, as amended. Encoded execution is lossless up to the surrogates that stand
  alone in the payload: for every payload, decoding the Base64 text that the encoder
  produces gives back exactly the bytes that were encoded, and the bytes that the
  remote interpreter reads from the pipeline \<open>echo '...' | base64 -d | interpreter\<close>,
  built by \<open>executeCommand\<close> in encoded mode and by \<open>executeScript\<close> for an
  interpreter that is a single command word, are those bytes; they are the UTF-8 text
  of the payload in which every surrogate that stands alone is replaced by U+FFFD. So
  the text delivered to the interpreter is the caller's payload exactly when the
  payload holds no such surrogate, whatever else it holds.
\<close>

theorem encoded_mode_lossless:
  assumes "isCommandWord interpreter"
  shows "base64Decode (toBase64 (bufferFrom payload)) = Some (bufferFrom payload)
       \<and> interpreterInput (units ''bash'') (finalCommand payload True) = Some (bufferFrom payload)
       \<and> interpreterInput interpreter (scriptCommand payload interpreter) = Some (bufferFrom payload)
       \<and> decodeUtf8 (bufferFrom payload) = Some (toWellFormed payload)
       \<and> (isWellFormed payload \<longrightarrow>
            Option.bind (interpreterInput (units ''bash'') (finalCommand payload True)) decodeUtf8 = Some payload
          \<and> Option.bind (interpreterInput interpreter (scriptCommand payload interpreter)) decodeUtf8 = Some payload)
       \<and> (\<not> isWellFormed payload \<longrightarrow>
            Option.bind (interpreterInput (units ''bash'') (finalCommand payload True)) decodeUtf8 \<noteq> Some payload
          \<and> Option.bind (interpreterInput interpreter (scriptCommand payload interpreter)) decodeUtf8 \<noteq> Some payload)"
proof -
  have "filter (\<lambda>c. c \<noteq> CHR 0x0A) (toBase64 (bufferFrom payload)) = toBase64 (bufferFrom payload)"
    using toBase64_no_newline[of "bufferFrom payload"] by (auto simp: filter_id_conv)
  then have a: "base64Decode (toBase64 (bufferFrom payload)) = Some (bufferFrom payload)"
    using decodeGroups_toBase64[OF bufferFrom_bytes] by (simp add: base64Decode_def)
  have b: "interpreterInput (units ''bash'') (finalCommand payload True) = Some (bufferFrom payload)"
    by (rule finalCommand_input)
  have c: "interpreterInput interpreter (scriptCommand payload interpreter) = Some (bufferFrom payload)"
    by (rule scriptCommand_input[OF assms])
  have d: "decodeUtf8 (bufferFrom payload) = Some (toWellFormed payload)"
    by (rule decodeUtf8_bufferFrom)
  show ?thesis unfolding b c using a d by (simp add: isWellFormed_def)
qed

theorem encoded_mode_lossless_witness:
  "isCommandWord (units ''python3'')
   \<and> isWellFormed (units (''echo '' @ [CHR 0x27] @ ''a`b$c'' @ [CHR 0x27, CHR 0x0A] @ ''ls'') @ [0xD83D, 0xDE00, 0x20AC])
   \<and> Option.bind (interpreterInput (units ''python3'')
         (scriptCommand (units (''echo '' @ [CHR 0x27] @ ''a`b$c'' @ [CHR 0x27, CHR 0x0A] @ ''ls'') @ [0xD83D, 0xDE00, 0x20AC])
            (units ''python3''))) decodeUtf8
       = Some (units (''echo '' @ [CHR 0x27] @ ''a`b$c'' @ [CHR 0x27, CHR 0x0A] @ ''ls'') @ [0xD83D, 0xDE00, 0x20AC])
   \<and> bufferFrom [0x61, 0xD83D, 0xDE00, 0x20AC] = [97, 240, 159, 152, 128, 226, 130, 172]"
proof -
  have w: "isCommandWord (units ''python3'')" by (simp add: isCommandWord_def units_def)
  have f: "isWellFormed (units (''echo '' @ [CHR 0x27] @ ''a`b$c'' @ [CHR 0x27, CHR 0x0A] @ ''ls'') @ [0xD83D, 0xDE00, 0x20AC])"
    by (simp add: isWellFormed_def units_def isHighSurrogate_def isLowSurrogate_def)
  have e: "bufferFrom [0x61, 0xD83D, 0xDE00, 0x20AC] = [97, 240, 159, 152, 128, 226, 130, 172]"
    by (simp add: codePoint_def pairCodePoint_def isHighSurrogate_def isLowSurrogate_def utf8_def)
  from encoded_mode_lossless[OF w, of "units (''echo '' @ [CHR 0x27] @ ''a`b$c'' @ [CHR 0x27, CHR 0x0A] @ ''ls'') @ [0xD83D, 0xDE00, 0x20AC]"] f
  have "Option.bind (interpreterInput (units ''python3'')
         (scriptCommand (units (''echo '' @ [CHR 0x27] @ ''a`b$c'' @ [CHR 0x27, CHR 0x0A] @ ''ls'') @ [0xD83D, 0xDE00, 0x20AC])
            (units ''python3''))) decodeUtf8
       = Some (units (''echo '' @ [CHR 0x27] @ ''a`b$c'' @ [CHR 0x27, CHR 0x0A] @ ''ls'') @ [0xD83D, 0xDE00, 0x20AC])"
    by blast
  with w f e show ?thesis by blast
qed

text \<open>
  Claim C3 as stated fails for a payload with a surrogate that stands alone: the
  encoder writes the bytes of U+FFFD in its place, so the interpreter reads another
  text than the caller's payload.
\<close>

theorem lone_surrogate_is_replaced:
  "interpreterInput (units ''bash'') (finalCommand [0x61, 0xD800, 0x62] True) = Some [97, 239, 191, 189, 98]
   \<and> decodeUtf8 [97, 239, 191, 189, 98] = Some [0x61, 0xFFFD, 0x62]
   \<and> [0x61, 0xFFFD, 0x62] \<noteq> [0x61, 0xD800, 0x62 :: 16 word]"
proof -
  have b: "bufferFrom [0x61, 0xD800, 0x62] = [97, 239, 191, 189, 98]"
    by (simp add: codePoint_def pairCodePoint_def isHighSurrogate_def isLowSurrogate_def utf8_def)
  have d: "decodeUtf8 [97, 239, 191, 189, 98] = Some [0x61, 0xFFFD, 0x62]"
    by (simp add: isContinuation_def unitsOf_def Let_def)
  have g: "[0x61, 0xFFFD, 0x62] \<noteq> [0x61, 0xD800, 0x62 :: 16 word]" by simp
  from finalCommand_input[of "[0x61, 0xD800, 0x62]"] d g show ?thesis unfolding b by blast
qed

text \<open>
  Claim C10. For every payload, the encoded form that is put between the single quotes
  of the remote pipeline consists of characters of the Base64 alphabet and \<open>=\<close> only; it
  holds no single quote and no white space, so the quoted word that starts after
  \<open>echo '\<close> ends exactly where the encoded form ends, whatever the payload.
\<close>

theorem encoded_payload_alphabet:
  "list_all isBase64Char (toBase64 (bufferFrom payload))
   \<and> CHR 0x27 \<notin> set (toBase64 (bufferFrom payload))
   \<and> list_all (\<lambda>c. \<not> isWhiteSpace c) (toBase64 (bufferFrom payload))
   \<and> take 6 (finalCommand payload True) = units (''echo '' @ [CHR 0x27])
   \<and> takeWhile (\<lambda>u. u \<noteq> 0x27) (drop 6 (finalCommand payload True)) = units (toBase64 (bufferFrom payload))
   \<and> take 6 (scriptCommand payload interpreter) = units (''echo '' @ [CHR 0x27])
   \<and> takeWhile (\<lambda>u. u \<noteq> 0x27) (drop 6 (scriptCommand payload interpreter)) = units (toBase64 (bufferFrom payload))"
proof -
  let ?E = "toBase64 (bufferFrom payload)"
  have q: "\<forall>u\<in>set (units ?E). u \<noteq> 0x27" by (rule units_no_quote[OF toBase64_no_quote])
  have t: "takeWhile (\<lambda>u. u \<noteq> 0x27) (units ?E @ 0x27 # r) = units ?E" for r
    using q by (simp add: takeWhile_append2)
  have fc: "finalCommand payload True
              = units (''echo '' @ [CHR 0x27]) @ units ?E @ 0x27 # units '' | base64 -d | bash''"
    by (simp add: finalCommand_def units_def)
  have sc: "scriptCommand payload interpreter
              = units (''echo '' @ [CHR 0x27]) @ units ?E @ 0x27 # units '' | base64 -d | '' @ interpreter"
    by (simp add: scriptCommand_def units_def)
  have six: "length (units (''echo '' @ [CHR 0x27])) = 6" by (simp add: units_def)
  have a: "take 6 (finalCommand payload True) = units (''echo '' @ [CHR 0x27])"
    unfolding fc using six by simp
  have b: "takeWhile (\<lambda>u. u \<noteq> 0x27) (drop 6 (finalCommand payload True)) = units ?E"
    unfolding fc using six t by simp
  have c: "take 6 (scriptCommand payload interpreter) = units (''echo '' @ [CHR 0x27])"
    unfolding sc using six by simp
  have d: "takeWhile (\<lambda>u. u \<noteq> 0x27) (drop 6 (scriptCommand payload interpreter)) = units ?E"
    unfolding sc using six t by simp
  show ?thesis
    using toBase64_chars[of "bufferFrom payload"] toBase64_no_quote[of "bufferFrom payload"]
      toBase64_no_space[of "bufferFrom payload"] a b c d
    by simp
qed

theorem encoded_payload_alphabet_witness:
  "toBase64 (bufferFrom (units (''a'' @ [CHR 0x27] @ ''; rm -rf /''))) = ''YSc7IHJtIC1yZiAv''
   \<and> list_all isBase64Char ''YSc7IHJtIC1yZiAv''
   \<and> CHR 0x27 \<notin> set ''YSc7IHJtIC1yZiAv''"
proof -
  have e: "toBase64 (bufferFrom (units (''a'' @ [CHR 0x27] @ ''; rm -rf /''))) = ''YSc7IHJtIC1yZiAv''"
    by code_simp
  from encoded_payload_alphabet[of "units (''a'' @ [CHR 0x27] @ ''; rm -rf /'')" "units ''bash''"]
  show ?thesis unfolding e by simp
qed

section \<open>The tool handlers: unknown hosts, exit codes and the timer\<close>

lemma settle_fields [simp]:
  "timerArmed (settle x s) = timerArmed s"
  "killed (settle x s) = killed s"
  "stdout (settle x s) = stdout s"
  "stderr (settle x s) = stderr s"
  by (simp_all add: settle_def split: option.splits)
























text \<open>
  Claim C4. Every operation that takes a host (execute-command, execute-script,
  get-host-info, upload-file, download-file), called with an alias that the registry
  does not hold, is rejected with an \<open>InvalidRequest\<close> error, and launches no process.
\<close>

theorem unknown_host_rejected:
  assumes "map_of sshHosts h = None"
  shows "executeCommand sshHosts h command timeout encode events
           = \<lparr>launched = [], killSignals = [], outcome = Some (Inl (notFoundError h))\<rparr>
       \<and> executeScript sshHosts h script timeout interpreter events
           = \<lparr>launched = [], killSignals = [], outcome = Some (Inl (notFoundError h))\<rparr>
       \<and> getHostInfo sshHosts h
           = \<lparr>launched = [], killSignals = [], outcome = Some (Inl (notFoundError h))\<rparr>
       \<and> uploadFile sshHosts h localPath remotePath child
           = \<lparr>launched = [], killSignals = [], outcome = Some (Inl (notFoundError h))\<rparr>
       \<and> downloadFile sshHosts h remotePath localPath child
           = \<lparr>launched = [], killSignals = [], outcome = Some (Inl (notFoundError h))\<rparr>"
  using assms
  by (simp add: executeCommand_def executeScript_def getHostInfo_def uploadFile_def
      downloadFile_def hostNotFound_def notFoundError_def)

theorem unknown_host_rejected_witness:
  "map_of [(''web'', newHost ''web'')] ''db'' = None
   \<and> launched (executeCommand [(''web'', newHost ''web'')] ''db'' (units ''ls'') 30 False [Close (Some 0)]) = []
   \<and> rejectedWith (executeCommand [(''web'', newHost ''web'')] ''db'' (units ''ls'') 30 False [Close (Some 0)])
       = Some (McpError InvalidRequest (''Host '' @ [CHR 0x27] @ ''db'' @ [CHR 0x27] @ '' not found in SSH config''))
   \<and> launched (uploadFile [(''web'', newHost ''web'')] ''db'' ''a.txt'' ''/tmp/a.txt'' (Some (Exited 0 [] []))) = []"
proof -
  have n: "map_of [(''web'', newHost ''web'')] ''db'' = None" by simp
  show ?thesis
    using n unknown_host_rejected[OF n, where command="units ''ls''" and timeout=30 and encode=False
        and events="[Close (Some 0)]" and localPath="''a.txt''" and remotePath="''/tmp/a.txt''"
        and child="Some (Exited 0 [] [])"]
    by (simp add: rejectedWith_def notFoundError_def)
qed










section \<open>The parser: blocks and the registry\<close>

lemma toLowerCase_Nil_iff [simp]: "toLowerCase k = [] \<longleftrightarrow> k = []"
  by (simp add: toLowerCase_def)

lemma parseLine_include:
  "isIncludeLine l \<Longrightarrow> parseLine e l cur hosts = Inl (trim (drop 8 (trim l)))"
  by (auto simp: isIncludeLine_def parseLine_def Let_def)

lemma parseLine_host:
  "isHostLine l \<Longrightarrow> parseLine e l cur hosts = Inr (Some (newHost (hostLineValue l)), saveHost cur hosts)"
  by (auto simp: isHostLine_def hostLineValue_def directive_def parseLine_def Let_def
      split: if_splits list.splits option.splits)

lemma parseLine_block:
  "\<not> isIncludeLine l \<Longrightarrow> \<not> isHostLine l \<Longrightarrow>
   parseLine e l cur hosts = Inr (map_option (\<lambda>h. blockLine e h l) cur, hosts)"
  by (auto simp: isIncludeLine_def isHostLine_def blockLine_def directive_def parseLine_def Let_def
      option.map_ident split: if_splits list.splits option.splits)

lemma isHostLine_not_include: "isHostLine l \<Longrightarrow> \<not> isIncludeLine l"
  by (auto simp: isIncludeLine_def isHostLine_def directive_def Let_def split: if_splits)

lemma setProperty_host [simp]: "host (setProperty e k v h) = host h"
  by (simp add: setProperty_def)

lemma blockLine_host [simp]: "host (blockLine e h l) = host h"
  by (simp add: blockLine_def split: option.splits)

lemma foldl_blockLine_host [simp]: "host (foldl (blockLine e) h ls) = host h"
  by (induction ls arbitrary: h) simp_all

lemma map_of_saveHost: "map_of (saveHost (Some h) hosts) (host h) = Some h"
  by (simp add: saveHost_def update_conv')

text \<open>Whatever the lines in front of a point of the document do, the loop goes on from
  that point in some state.\<close>

lemma parseLines_append:
  "parseLines n e b (xs @ ys) cur hosts = Some r \<Longrightarrow>
   \<exists>cur' hosts'. parseLines n e b ys cur' hosts' = Some r"
proof (induction xs arbitrary: cur hosts)
  case Nil then show ?case by auto
next
  case (Cons x xs)
  then show ?case
    by (auto split: sum.splits option.splits prod.splits)
qed

lemma parseLines_body:
  "list_all (\<lambda>l. \<not> isHostLine l) body \<Longrightarrow> parseLines n e b (body @ rest) (Some h) hosts = Some r \<Longrightarrow>
   \<exists>hosts'. parseLines n e b rest (Some (foldl (blockLine e) h body)) hosts' = Some r"
proof (induction body arbitrary: h hosts)
  case Nil then show ?case by auto
next
  case (Cons l ls)
  then have nh: "\<not> isHostLine l" and rest: "list_all (\<lambda>l. \<not> isHostLine l) ls" by simp_all
  show ?case
  proof (cases "isIncludeLine l")
    case True
    then have d: "directive l = None" by (auto simp: isIncludeLine_def directive_def Let_def)
    from True Cons.prems(2) obtain hosts1 where
      "parseLines n e b (ls @ rest) (Some h) hosts1 = Some r"
      by (auto simp: parseLine_include split: option.splits)
    from Cons.IH[OF rest this] d show ?thesis by (simp add: blockLine_def)
  next
    case False
    with nh Cons.prems(2) have "parseLines n e b (ls @ rest) (Some (blockLine e h l)) hosts = Some r"
      by (simp add: parseLine_block)
    from Cons.IH[OF rest this] show ?thesis by simp
  qed
qed

lemma map_of_saveHost_other:
  "(case cur of None \<Rightarrow> True | Some h \<Rightarrow> host h \<noteq> a) \<Longrightarrow> map_of (saveHost cur hosts) a = map_of hosts a"
  by (cases cur) (simp_all add: saveHost_def update_conv')

lemma parseLines_leaves_alias:
  "list_all (leavesAlias a) ls \<Longrightarrow> (case cur of None \<Rightarrow> True | Some h \<Rightarrow> host h \<noteq> a) \<Longrightarrow>
   parseLines n e b ls cur hosts = Some r \<Longrightarrow> map_of r a = map_of hosts a"
proof (induction ls arbitrary: cur hosts)
  case Nil
  then show ?case by (auto simp: map_of_saveHost_other)
next
  case (Cons l ls)
  then have la: "leavesAlias a l" and rest: "list_all (leavesAlias a) ls" by simp_all
  then have ni: "\<not> isIncludeLine l" by (simp add: leavesAlias_def)
  show ?case
  proof (cases "isHostLine l")
    case True
    with la have v: "hostLineValue l \<noteq> a" by (simp add: leavesAlias_def)
    from True Cons.prems(3)
    have "parseLines n e b ls (Some (newHost (hostLineValue l))) (saveHost cur hosts) = Some r"
      by (simp add: parseLine_host)
    from Cons.IH[OF rest _ this] v have "map_of r a = map_of (saveHost cur hosts) a"
      by (simp add: newHost_def)
    with Cons.prems(2) show ?thesis by (simp add: map_of_saveHost_other)
  next
    case False
    with ni Cons.prems(3)
    have p: "parseLines n e b ls (map_option (\<lambda>h. blockLine e h l) cur) hosts = Some r"
      by (simp add: parseLine_block)
    have "case map_option (\<lambda>h. blockLine e h l) cur of None \<Rightarrow> True | Some h \<Rightarrow> host h \<noteq> a"
      using Cons.prems(2) by (cases cur) simp_all
    from Cons.IH[OF rest this p] show ?thesis .
  qed
qed

lemma afterBlock_cases: "afterBlock ls = [] \<or> (\<exists>x xs. afterBlock ls = x # xs \<and> isHostLine x)"
proof (cases "afterBlock ls")
  case Nil then show ?thesis by simp
next
  case (Cons x xs)
  then have "\<not> \<not> isHostLine x" unfolding afterBlock_def by (metis hd_dropWhile list.distinct(1) list.sel(1))
  with Cons show ?thesis by simp
qed

text \<open>The parser commits the blocks in order.\<close>

lemma commitBlocks_append: "commitBlocks r (xs @ ys) = commitBlocks (commitBlocks r xs) ys"
  by (simp add: commitBlocks_def)

lemma commitBlocks_closed: "commitBlocks r (closedBlock cur) = saveHost cur r"
  by (cases cur) (simp_all add: commitBlocks_def closedBlock_def saveHost_def)

lemma commitBlocks_Nil: "commitBlocks r [] = r"
  by (simp add: commitBlocks_def)

lemma parseLines_commits:
  assumes "\<And>p hosts. handleInclude n e p b hosts = map_option (commitBlocks hosts) (blocksOfInclude n e p b)"
  shows "parseLines n e b ls cur hosts = map_option (commitBlocks hosts) (blocksOfLines n e b ls cur)"
proof (induction ls arbitrary: cur hosts)
  case Nil
  show ?case by (simp add: commitBlocks_closed)
next
  case (Cons l ls)
  show ?case
  proof (cases "isIncludeLine l")
    case True
    let ?p = "trim (drop 8 (trim l))"
    show ?thesis
    proof (cases "blocksOfInclude n e ?p b")
      case None
      with True assms[of ?p hosts] show ?thesis by (simp add: parseLine_include)
    next
      case (Some included)
      with assms[of ?p hosts] have h: "handleInclude n e ?p b hosts = Some (commitBlocks hosts included)"
        by simp
      from Cons.IH[of cur "commitBlocks hosts included"] True Some h show ?thesis
        by (cases "blocksOfLines n e b ls cur") (simp_all add: parseLine_include commitBlocks_append)
    qed
  next
    case False
    show ?thesis
    proof (cases "isHostLine l")
      case True
      from Cons.IH[of "Some (newHost (hostLineValue l))" "saveHost cur hosts"] True False show ?thesis
        by (cases "blocksOfLines n e b ls (Some (newHost (hostLineValue l)))")
           (simp_all add: parseLine_host commitBlocks_append commitBlocks_closed)
    next
      case nh: False
      from Cons.IH[of "map_option (\<lambda>h. blockLine e h l) cur" hosts] False nh show ?thesis
        by (simp add: parseLine_block)
    qed
  qed
qed

lemma includeFiles_commits:
  assumes "\<And>c b hosts. parseSSHConfig n e c b hosts = map_option (commitBlocks hosts) (committedBlocks n e c b)"
  shows "includeFiles n e files hosts = map_option (commitBlocks hosts) (blocksOfFiles n e files)"
proof (induction files arbitrary: hosts)
  case Nil
  show ?case by (simp add: commitBlocks_Nil)
next
  case (Cons f files)
  show ?case
  proof (cases "readFile e f")
    case None
    from Cons.IH[of hosts] None show ?thesis
      by (cases "blocksOfFiles n e files") (simp_all del: parseSSHConfig.simps committedBlocks.simps)
  next
    case (Some c)
    show ?thesis
    proof (cases "committedBlocks n e c f")
      case None
      with Some assms[of c f hosts] show ?thesis
        by (simp del: parseSSHConfig.simps committedBlocks.simps)
    next
      case cb: (Some included)
      with assms[of c f hosts] have p: "parseSSHConfig n e c f hosts = Some (commitBlocks hosts included)"
        by simp
      from Cons.IH[of "commitBlocks hosts included"] Some cb p show ?thesis
        by (cases "blocksOfFiles n e files")
           (simp_all add: commitBlocks_append del: parseSSHConfig.simps committedBlocks.simps)
    qed
  qed
qed

lemma handleInclude_commits:
  "handleInclude n e p b hosts = map_option (commitBlocks hosts) (blocksOfInclude n e p b)"
proof (induction n arbitrary: p b hosts)
  case 0
  show ?case by simp
next
  case (Suc n)
  have ps: "parseSSHConfig n e c b' hosts' = map_option (commitBlocks hosts') (committedBlocks n e c b')"
    for c b' hosts'
    using parseLines_commits[of n e b', OF Suc.IH] by simp
  note fs = includeFiles_commits[of n e, OF ps]
  show ?case
    by (simp add: Let_def ps fs commitBlocks_Nil del: parseSSHConfig.simps committedBlocks.simps
        split: option.splits)
qed

lemma parseSSHConfig_commits:
  "parseSSHConfig n e c b hosts = map_option (commitBlocks hosts) (committedBlocks n e c b)"
  using parseLines_commits[of n e b, OF handleInclude_commits] by simp

text \<open>The entry of an alias is the block of that alias committed last.\<close>

lemma commitBlocks_other:
  "list_all (\<lambda>x. host x \<noteq> a) bs \<Longrightarrow> map_of (commitBlocks r bs) a = map_of r a"
proof (induction bs arbitrary: r)
  case Nil then show ?case by (simp add: commitBlocks_def)
next
  case (Cons x bs)
  from Cons.IH[of "AList.update (host x) x r"] Cons.prems show ?case
    by (auto simp: commitBlocks_def update_conv')
qed

lemma commitBlocks_last:
  assumes "list_all (\<lambda>x. host x \<noteq> host h) back"
  shows "map_of (commitBlocks r (front @ h # back)) (host h) = Some h"
proof -
  have "commitBlocks r (front @ h # back) = commitBlocks (AList.update (host h) h (commitBlocks r front)) back"
    by (simp add: commitBlocks_def)
  with commitBlocks_other[OF assms] show ?thesis by (simp add: update_conv')
qed

lemma commitBlocks_lookup:
  "map_of (commitBlocks r bs) a
     = (case find (\<lambda>x. host x = a) (rev bs) of None \<Rightarrow> map_of r a | Some x \<Rightarrow> Some x)"
proof (induction bs arbitrary: r rule: rev_induct)
  case Nil then show ?case by (simp add: commitBlocks_def)
next
  case (snoc x bs)
  show ?case using snoc.IH[of r] by (simp add: commitBlocks_def update_conv')
qed

text \<open>The block that is open behind some lines of a document.\<close>

lemma openAlias_Cons:
  "openAlias (x # pre) = (case openAlias pre of None \<Rightarrow> (if isHostLine x then Some (hostLineValue x) else None)
                          | Some a \<Rightarrow> Some a)"
proof -
  have "find P (ys @ [x]) = (case find P ys of None \<Rightarrow> (if P x then Some x else None) | Some y \<Rightarrow> Some y)"
    for P and ys :: "string list"
    by (induction ys) simp_all
  then show ?thesis by (simp add: openAlias_def split: option.splits)
qed

lemma parseLines_open:
  "parseLines n e b (pre @ rest) cur hosts = Some r \<Longrightarrow>
   \<exists>cur' hosts'. parseLines n e b rest cur' hosts' = Some r
     \<and> map_option host cur' = (case openAlias pre of None \<Rightarrow> map_option host cur | Some a \<Rightarrow> Some a)"
proof (induction pre arbitrary: cur hosts)
  case Nil
  then show ?case by (auto simp: openAlias_def)
next
  case (Cons x pre)
  show ?case
  proof (cases "isIncludeLine x")
    case True
    then have nh: "\<not> isHostLine x" using isHostLine_not_include by blast
    from True Cons.prems obtain hosts1 where "parseLines n e b (pre @ rest) cur hosts1 = Some r"
      by (auto simp: parseLine_include split: option.splits)
    from Cons.IH[OF this] nh show ?thesis by (simp add: openAlias_Cons split: option.splits)
  next
    case False
    show ?thesis
    proof (cases "isHostLine x")
      case True
      with Cons.prems have "parseLines n e b (pre @ rest) (Some (newHost (hostLineValue x))) (saveHost cur hosts) = Some r"
        by (simp add: parseLine_host)
      from Cons.IH[OF this] True show ?thesis
        by (simp add: openAlias_Cons newHost_def split: option.splits)
    next
      case nh: False
      with False Cons.prems have "parseLines n e b (pre @ rest) (map_option (\<lambda>h. blockLine e h x) cur) hosts = Some r"
        by (simp add: parseLine_block)
      from Cons.IH[OF this] nh show ?thesis
        by (simp add: openAlias_Cons option.map_comp comp_def split: option.splits)
    qed
  qed
qed

lemma later_include_wins:
  assumes "isIncludeLine l" and "includedFile e l b = Some (c, f)"
    and "parseSSHConfig n e c f [] = Some r0" and "map_of r0 a = Some h"
    and "openAlias pre \<noteq> Some a" and "list_all (leavesAlias a) rest"
    and "parseLines (Suc n) e b (pre @ l # rest) None hosts = Some r"
  shows "map_of r a = Some h"
proof -
  let ?p = "trim (drop 8 (trim l))"
  from assms(2) have f: "f = resolveInclude e ?p b" and star: "CHR ''*'' \<notin> set f"
    and rf: "readFile e f = Some c"
    by (auto simp: includedFile_def Let_def split: if_splits)
  from parseLines_open[OF assms(7)] obtain cur hosts1 where
    p: "parseLines (Suc n) e b (l # rest) cur hosts1 = Some r"
    and o: "map_option host cur = openAlias pre"
    by (auto split: option.splits)
  from p assms(1) obtain hosts2 where
    hi: "handleInclude (Suc n) e ?p b hosts1 = Some hosts2"
    and q: "parseLines (Suc n) e b rest cur hosts2 = Some r"
    by (auto simp: parseLine_include split: option.splits)
  from hi f star rf have pc: "parseSSHConfig n e c f hosts1 = Some hosts2"
    by (simp add: Let_def del: parseSSHConfig.simps)
  from assms(3) obtain bs where bs: "committedBlocks n e c f = Some bs" and r0: "r0 = commitBlocks [] bs"
    unfolding parseSSHConfig_commits[of n e c f "[]"] by (cases "committedBlocks n e c f") auto
  from pc bs have h2: "hosts2 = commitBlocks hosts1 bs"
    unfolding parseSSHConfig_commits[of n e c f hosts1] by simp
  from assms(4) r0 have "find (\<lambda>x. host x = a) (rev bs) = Some h"
    by (simp add: commitBlocks_lookup split: option.splits)
  then have m: "map_of hosts2 a = Some h" unfolding h2 by (simp add: commitBlocks_lookup)
  have "case cur of None \<Rightarrow> True | Some x \<Rightarrow> host x \<noteq> a"
    using o assms(5) by (cases cur) auto
  from parseLines_leaves_alias[OF assms(6) this q] m show ?thesis by simp
qed

text \<open>
  Claim C1, as amended. The registry after a parse is the result of committing the
  blocks one by one, each overwriting the entry of its alias with the complete record of
  the block, so the entry of an alias is the complete record of the block of that alias
  that is committed last; no field of another block survives. A block is committed when
  the next \<open>Host\<close> line of its own document is read, or at the end of that document, and
  the blocks of an included file are committed where the \<open>Include\<close> line stands. So
  when a block of a document is followed, in that document, by no further block of the
  same alias and by no \<open>Include\<close> line behind the block's end, the entry of the alias
  is the record of that block alone, whatever was declared for the alias before; and
  when a file is included outside every block of an alias, and nothing behind the
  \<open>Include\<close> line touches the alias, the entry of the alias is the entry that the
  included file gives it, whatever the document declared for the alias before.
\<close>

theorem last_block_wins:
  assumes "jsSplit (CHR 0x0A) content = pre @ l # rest"
    and "isHostLine l"
    and "list_all (leavesAlias (hostLineValue l)) (afterBlock rest)"
    and "parseSSHConfig n e content basePath sshHosts = Some sshHosts'"
    and "jsSplit (CHR 0x0A) doc = front @ inc # back"
    and "isIncludeLine inc"
    and "includedFile e inc docPath = Some (includeContent, fullPath)"
    and "parseSSHConfig m e includeContent fullPath [] = Some included"
    and "map_of included a = Some h"
    and "openAlias front \<noteq> Some a"
    and "list_all (leavesAlias a) back"
    and "parseSSHConfig (Suc m) e doc docPath hosts = Some hosts'"
    and "committedBlocks k e c p = Some (earlier @ b # later)"
    and "list_all (\<lambda>x. host x \<noteq> host b) later"
  shows "map_of sshHosts' (hostLineValue l)
           = Some (foldl (blockLine e) (newHost (hostLineValue l)) (blockBody rest))
       \<and> map_of hosts' a = Some h
       \<and> parseSSHConfig j e c' p' r = map_option (commitBlocks r) (committedBlocks j e c' p')
       \<and> map_option (\<lambda>r'. map_of r' (host b)) (parseSSHConfig k e c p r) = Some (Some b)"
proof -
  let ?a = "hostLineValue l"
  let ?h = "foldl (blockLine e) (newHost ?a) (blockBody rest)"
  have ha: "host ?h = ?a" by (simp add: newHost_def)
  from assms(1,4) have "parseLines n e basePath (pre @ l # rest) None sshHosts = Some sshHosts'"
    by simp
  from parseLines_append[OF this] obtain cur hosts0 where
    "parseLines n e basePath (l # rest) cur hosts0 = Some sshHosts'" by blast
  with assms(2) have "parseLines n e basePath rest (Some (newHost ?a)) (saveHost cur hosts0) = Some sshHosts'"
    by (simp add: parseLine_host)
  then have "parseLines n e basePath (blockBody rest @ afterBlock rest) (Some (newHost ?a)) (saveHost cur hosts0) = Some sshHosts'"
    by (simp add: blockBody_def afterBlock_def)
  from parseLines_body[OF _ this] obtain hosts1 where
    q: "parseLines n e basePath (afterBlock rest) (Some ?h) hosts1 = Some sshHosts'"
    by (auto simp: blockBody_def list_all_iff dest: set_takeWhileD)
  from afterBlock_cases[of rest] have A: "map_of sshHosts' ?a = Some ?h"
  proof
    assume "afterBlock rest = []"
    with q ha show ?thesis by (auto simp: map_of_saveHost[of ?h hosts1, unfolded ha])
  next
    assume "\<exists>x xs. afterBlock rest = x # xs \<and> isHostLine x"
    then obtain x xs where x: "afterBlock rest = x # xs" "isHostLine x" by blast
    with assms(3) have lx: "hostLineValue x \<noteq> ?a" and lxs: "list_all (leavesAlias ?a) xs"
      by (simp_all add: leavesAlias_def)
    from q x have "parseLines n e basePath xs (Some (newHost (hostLineValue x))) (saveHost (Some ?h) hosts1) = Some sshHosts'"
      by (simp add: parseLine_host)
    from parseLines_leaves_alias[OF lxs _ this] lx
    have "map_of sshHosts' ?a = map_of (saveHost (Some ?h) hosts1) ?a" by (simp add: newHost_def)
    with map_of_saveHost[of ?h hosts1] ha show ?thesis by simp
  qed
  from assms(5,12) have "parseLines (Suc m) e docPath (front @ inc # back) None hosts = Some hosts'"
    by simp
  from later_include_wins[OF assms(6,7,8,9,10,11) this] have B: "map_of hosts' a = Some h" .
  have C: "parseSSHConfig j e c' p' r = map_option (commitBlocks r) (committedBlocks j e c' p')"
    by (rule parseSSHConfig_commits)
  have D: "map_option (\<lambda>r'. map_of r' (host b)) (parseSSHConfig k e c p r) = Some (Some b)"
    unfolding parseSSHConfig_commits[of k e c p r] assms(13)
    using commitBlocks_last[OF assms(14), of r earlier] by simp
  from A B C D show ?thesis by blast
qed

theorem last_block_wins_witness:
  "jsSplit (CHR 0x0A) duplicateDoc = [''Host a'', ''  User old''] @ ''Host a'' # [''  HostName new'', ''Host b'']
   \<and> isHostLine ''Host a''
   \<and> blockBody [''  HostName new'', ''Host b''] = [''  HostName new'']
   \<and> list_all (leavesAlias (hostLineValue ''Host a'')) (afterBlock [''  HostName new'', ''Host b''])
   \<and> parseSSHConfig 0 overrideEnv duplicateDoc ''/home/u/.ssh/config'' []
       = Some [(''a'', (newHost ''a'')\<lparr>hostname := Some ''new''\<rparr>), (''b'', newHost ''b'')]
   \<and> map_of [(''a'', (newHost ''a'')\<lparr>hostname := Some ''new''\<rparr>), (''b'', newHost ''b'')] ''a''
       = Some ((newHost ''a'')\<lparr>hostname := Some ''new''\<rparr>)
   \<and> jsSplit (CHR 0x0A) laterIncludePrimary = [''Host a'', ''HostName first'', ''Host b''] @ ''Include extra'' # []
   \<and> isIncludeLine ''Include extra''
   \<and> includedFile overrideEnv ''Include extra'' ''/home/u/.ssh/config'' = Some (extraFile, ''/home/u/.ssh/extra'')
   \<and> parseSSHConfig 0 overrideEnv extraFile ''/home/u/.ssh/extra'' []
       = Some [(''a'', (newHost ''a'')\<lparr>hostname := Some ''second'', user := Some ''u2''\<rparr>)]
   \<and> openAlias [''Host a'', ''HostName first'', ''Host b''] \<noteq> Some ''a''
   \<and> parseSSHConfig 1 overrideEnv laterIncludePrimary ''/home/u/.ssh/config'' []
       = Some [(''a'', (newHost ''a'')\<lparr>hostname := Some ''second'', user := Some ''u2''\<rparr>), (''b'', newHost ''b'')]
   \<and> map_of [(''a'', (newHost ''a'')\<lparr>hostname := Some ''second'', user := Some ''u2''\<rparr>), (''b'', newHost ''b'')] ''a''
       = Some ((newHost ''a'')\<lparr>hostname := Some ''second'', user := Some ''u2''\<rparr>)
   \<and> committedBlocks 1 overrideEnv laterIncludePrimary ''/home/u/.ssh/config''
       = Some ([(newHost ''a'')\<lparr>hostname := Some ''first''\<rparr>]
               @ (newHost ''a'')\<lparr>hostname := Some ''second'', user := Some ''u2''\<rparr> # [newHost ''b''])"
proof -
  have a: "jsSplit (CHR 0x0A) duplicateDoc = [''Host a'', ''  User old''] @ ''Host a'' # [''  HostName new'', ''Host b'']"
    by code_simp
  have b: "isHostLine ''Host a''" by code_simp
  have c: "list_all (leavesAlias (hostLineValue ''Host a'')) (afterBlock [''  HostName new'', ''Host b''])"
    by code_simp
  have d: "parseSSHConfig 0 overrideEnv duplicateDoc ''/home/u/.ssh/config'' []
       = Some [(''a'', (newHost ''a'')\<lparr>hostname := Some ''new''\<rparr>), (''b'', newHost ''b'')]"
    by code_simp
  have f: "blockBody [''  HostName new'', ''Host b''] = [''  HostName new'']" by code_simp
  have g: "foldl (blockLine overrideEnv) (newHost ''a'') [''  HostName new'']
           = (newHost ''a'')\<lparr>hostname := Some ''new''\<rparr>"
    by code_simp
  have v: "hostLineValue ''Host a'' = ''a''" by code_simp
  have s: "jsSplit (CHR 0x0A) laterIncludePrimary = [''Host a'', ''HostName first'', ''Host b''] @ ''Include extra'' # []"
    by code_simp
  have i: "isIncludeLine ''Include extra''" by code_simp
  have t: "includedFile overrideEnv ''Include extra'' ''/home/u/.ssh/config'' = Some (extraFile, ''/home/u/.ssh/extra'')"
    by code_simp
  have x: "parseSSHConfig 0 overrideEnv extraFile ''/home/u/.ssh/extra'' []
       = Some [(''a'', (newHost ''a'')\<lparr>hostname := Some ''second'', user := Some ''u2''\<rparr>)]"
    by code_simp
  have y: "map_of [(''a'', (newHost ''a'')\<lparr>hostname := Some ''second'', user := Some ''u2''\<rparr>)] ''a''
       = Some ((newHost ''a'')\<lparr>hostname := Some ''second'', user := Some ''u2''\<rparr>)"
    by simp
  have o: "openAlias [''Host a'', ''HostName first'', ''Host b''] \<noteq> Some ''a''" by code_simp
  have z: "list_all (leavesAlias ''a'') []" by simp
  have w: "parseSSHConfig (Suc 0) overrideEnv laterIncludePrimary ''/home/u/.ssh/config'' []
       = Some [(''a'', (newHost ''a'')\<lparr>hostname := Some ''second'', user := Some ''u2''\<rparr>), (''b'', newHost ''b'')]"
    by code_simp
  have cb: "committedBlocks 1 overrideEnv laterIncludePrimary ''/home/u/.ssh/config''
       = Some ([(newHost ''a'')\<lparr>hostname := Some ''first''\<rparr>]
               @ (newHost ''a'')\<lparr>hostname := Some ''second'', user := Some ''u2''\<rparr> # [newHost ''b''])"
    by code_simp
  have nb: "list_all (\<lambda>x. host x \<noteq> host ((newHost ''a'')\<lparr>hostname := Some ''second'', user := Some ''u2''\<rparr>)) [newHost ''b'']"
    by (simp add: newHost_def)
  note T = last_block_wins[OF a b c d s i t x y o z w cb nb]
  from T have "map_of [(''a'', (newHost ''a'')\<lparr>hostname := Some ''new''\<rparr>), (''b'', newHost ''b'')] ''a''
       = Some ((newHost ''a'')\<lparr>hostname := Some ''new''\<rparr>)"
    by (simp only: f g v)
  moreover from T have "map_of [(''a'', (newHost ''a'')\<lparr>hostname := Some ''second'', user := Some ''u2''\<rparr>), (''b'', newHost ''b'')] ''a''
       = Some ((newHost ''a'')\<lparr>hostname := Some ''second'', user := Some ''u2''\<rparr>)"
    by blast
  moreover note a b c d f s i t x o w[unfolded One_nat_def[symmetric]] cb
  ultimately show ?thesis by blast
qed

text \<open>
  Claim C1 as stated fails where the later declaration comes from a file included inside
  the earlier block: the included file's block is committed first, and the enclosing
  block of the primary document, declared earlier, is committed after it and wins.
\<close>

theorem later_included_block_loses:
  "map_option (\<lambda>r. map_of r ''a'') (parseSSHConfig 1 overrideEnv overridePrimary ''/home/u/.ssh/config'' [])
     = Some (Some ((newHost ''a'')\<lparr>hostname := Some ''first''\<rparr>))
   \<and> parseSSHConfig 0 overrideEnv extraFile ''/home/u/.ssh/extra'' []
     = Some [(''a'', (newHost ''a'')\<lparr>hostname := Some ''second'', user := Some ''u2''\<rparr>)]
   \<and> (newHost ''a'')\<lparr>hostname := Some ''first''\<rparr>
     \<noteq> (newHost ''a'')\<lparr>hostname := Some ''second'', user := Some ''u2''\<rparr>"
  by code_simp

section \<open>The parser: the alias of a Host line\<close>


lemma splitWs_word: "list_all (\<lambda>c. \<not> isWhiteSpace c) w \<Longrightarrow> splitWs w = [w]"
  by (induction w) auto

lemma splitWs_word_space:
  "list_all (\<lambda>c. \<not> isWhiteSpace c) w \<Longrightarrow> rest \<noteq> [] \<Longrightarrow> \<not> isWhiteSpace (hd rest) \<Longrightarrow>
   splitWs (w @ CHR '' '' # rest) = w # splitWs rest"
proof (induction w)
  case Nil
  then show ?case by (cases rest) (auto simp: isWhiteSpace_def)
next
  case (Cons c w)
  then show ?case by auto
qed

lemma jsJoin_Cons: "ys \<noteq> [] \<Longrightarrow> jsJoin sep (x # ys) = x @ sep @ jsJoin sep ys"
  by (cases ys) simp_all

lemma jsJoin_words_hd:
  "ts \<noteq> [] \<Longrightarrow> list_all isWord ts \<Longrightarrow> jsJoin '' '' ts \<noteq> [] \<and> \<not> isWhiteSpace (hd (jsJoin '' '' ts))"
proof (cases ts)
  case Nil
  assume "ts \<noteq> []" with Nil show ?thesis by simp
next
  case (Cons x ys)
  assume "list_all isWord ts"
  with Cons have "x \<noteq> []" "\<not> isWhiteSpace (hd x)" by (auto simp: isWord_def neq_Nil_conv)
  with Cons show ?thesis by (cases ys) simp_all
qed

lemma splitWs_jsJoin: "ts \<noteq> [] \<Longrightarrow> list_all isWord ts \<Longrightarrow> splitWs (jsJoin '' '' ts) = ts"
proof (induction ts)
  case Nil then show ?case by simp
next
  case (Cons x ts)
  then have r: "list_all isWord ts" by simp
  from Cons.prems have w: "list_all (\<lambda>c. \<not> isWhiteSpace c) x" by (simp add: isWord_def)
  show ?case
  proof (cases "ts = []")
    case True
    with w show ?thesis by (simp add: splitWs_word)
  next
    case False
    from jsJoin_words_hd[OF False r] have h: "jsJoin '' '' ts \<noteq> []" "\<not> isWhiteSpace (hd (jsJoin '' '' ts))"
      by simp_all
    have "splitWs (jsJoin '' '' (x # ts)) = splitWs (x @ CHR '' '' # jsJoin '' '' ts)"
      using False by (simp add: jsJoin_Cons)
    also have "\<dots> = x # splitWs (jsJoin '' '' ts)" by (rule splitWs_word_space[OF w h])
    also have "\<dots> = x # ts" using Cons.IH[OF False r] by simp
    finally show ?thesis .
  qed
qed

lemma jsJoin_space_chars:
  "list_all isWord ts \<Longrightarrow> c \<in> set (jsJoin '' '' ts) \<Longrightarrow> c = CHR '' '' \<or> \<not> isWhiteSpace c"
proof (induction ts)
  case Nil then show ?case by simp
next
  case (Cons x ts)
  then show ?case by (cases ts) (auto simp: isWord_def list_all_iff)
qed

lemma jsJoin_last:
  "ts \<noteq> [] \<Longrightarrow> list_all isWord ts \<Longrightarrow> \<not> isWhiteSpace (last (jsJoin '' '' ts))"
proof (induction ts)
  case Nil then show ?case by simp
next
  case (Cons x ts)
  then have r: "list_all isWord ts" by simp
  from Cons.prems have x: "x \<noteq> []" "list_all (\<lambda>c. \<not> isWhiteSpace c) x"
    by (simp_all add: isWord_def)
  show ?case
  proof (cases "ts = []")
    case True
    from x have "\<not> isWhiteSpace (last x)" by (metis last_in_set list_all_iff)
    with True show ?thesis by simp
  next
    case False
    from jsJoin_words_hd[OF False r] have "jsJoin '' '' ts \<noteq> []" by simp
    with Cons.IH[OF False r] False show ?thesis by (simp add: jsJoin_Cons)
  qed
qed

lemma jsJoin_has_space: "2 \<le> length ts \<Longrightarrow> CHR '' '' \<in> set (jsJoin '' '' ts)"
proof (cases ts)
  case Nil
  assume "2 \<le> length ts" with Nil show ?thesis by simp
next
  case (Cons x ys)
  assume "2 \<le> length ts"
  with Cons have "ys \<noteq> []" by auto
  with Cons show ?thesis by (simp add: jsJoin_Cons)
qed

lemma trim_id: "s \<noteq> [] \<Longrightarrow> \<not> isWhiteSpace (hd s) \<Longrightarrow> \<not> isWhiteSpace (last s) \<Longrightarrow> trim s = s"
proof -
  assume a: "s \<noteq> []" "\<not> isWhiteSpace (hd s)" "\<not> isWhiteSpace (last s)"
  then have 1: "dropWhile isWhiteSpace s = s" by (cases s) auto
  from a have "rev s \<noteq> []" "hd (rev s) = last s" by (simp_all add: hd_rev)
  with a(3) have 2: "dropWhile isWhiteSpace (rev s) = rev s"
    by (metis dropWhile_eq_Nil_conv hd_dropWhile dropWhile.simps(2) list.collapse)
  show ?thesis by (simp add: trim_def 1 2)
qed

lemma hostLine_directive:
  assumes "ts \<noteq> []" and "list_all isWord ts"
  shows "directive (''Host '' @ jsJoin '' '' ts) = Some (''host'', jsJoin '' '' ts)"
proof -
  let ?line = "''Host '' @ jsJoin '' '' ts"
  from jsJoin_words_hd[OF assms] have j: "jsJoin '' '' ts \<noteq> []" by simp
  have t: "trim ?line = ?line"
    using jsJoin_last[OF assms] j by (intro trim_id) (simp_all add: isWhiteSpace_def)
  have w: "isWord ''Host''" by (simp add: isWord_def isWhiteSpace_def)
  have "?line = jsJoin '' '' (''Host'' # ts)" using assms(1) by (simp add: jsJoin_Cons)
  then have s: "splitWs ?line = ''Host'' # ts"
    using splitWs_jsJoin[of "''Host'' # ts"] assms(2) w by simp
  have l: "toLowerCase ''Host'' = ''host''" by code_simp
  have lp: "toLowerCase ''Host '' = ''host ''" by code_simp
  have "toLowerCase ?line = toLowerCase ''Host '' @ toLowerCase (jsJoin '' '' ts)"
    unfolding toLowerCase_def by simp
  then have ni: "\<not> startsWith (toLowerCase ?line) ''include ''"
    unfolding lp by (simp add: startsWith_def)
  have nc: "\<not> startsWith ?line ''#''" by (simp add: startsWith_def)
  show ?thesis
    unfolding directive_def t Let_def s using ni nc l by simp
qed

lemma parseLines_plain_block:
  "list_all (\<lambda>x. \<not> isHostLine x \<and> \<not> isIncludeLine x) body \<Longrightarrow>
   parseLines n e b body (Some h) hosts = Some (saveHost (Some (foldl (blockLine e) h body)) hosts)"
  by (induction body arbitrary: h) (simp_all add: parseLine_block)

text \<open>
  Claim C9, as amended. A \<open>Host\<close> line whose value consists of several words registers
  one alias, the words joined by single spaces: a document that consists of such a line
  and the lines of its block yields a registry with exactly one entry, under the joined
  text; a lookup by the joined text finds the block's record, and a lookup by any single
  word of the line, the first one included, finds nothing.
\<close>

theorem host_line_alias_is_joined_value:
  assumes "list_all isWord ts" and "2 \<le> length ts"
    and "jsSplit (CHR 0x0A) content = (''Host '' @ jsJoin '' '' ts) # body"
    and "list_all (\<lambda>x. \<not> isHostLine x \<and> \<not> isIncludeLine x) body"
  shows "parseSSHConfig n e content basePath []
           = Some [(jsJoin '' '' ts, foldl (blockLine e) (newHost (jsJoin '' '' ts)) body)]
       \<and> map_of [(jsJoin '' '' ts, foldl (blockLine e) (newHost (jsJoin '' '' ts)) body)] (jsJoin '' '' ts)
           = Some (foldl (blockLine e) (newHost (jsJoin '' '' ts)) body)
       \<and> list_all (\<lambda>t. map_of [(jsJoin '' '' ts, foldl (blockLine e) (newHost (jsJoin '' '' ts)) body)] t = None) ts"
proof -
  let ?v = "jsJoin '' '' ts"
  let ?line = "''Host '' @ ?v"
  let ?h = "foldl (blockLine e) (newHost ?v) body"
  from assms(2) have ne: "ts \<noteq> []" by auto
  have d: "directive ?line = Some (''host'', ?v)" by (rule hostLine_directive[OF ne assms(1)])
  then have h: "isHostLine ?line" and v: "hostLineValue ?line = ?v"
    by (simp_all add: isHostLine_def hostLineValue_def)
  have "parseSSHConfig n e content basePath [] = parseLines n e basePath (?line # body) None []"
    by (simp only: parseSSHConfig.simps assms(3))
  also have "\<dots> = parseLines n e basePath body (Some (newHost ?v)) []"
    using parseLine_host[OF h, of e None "[]"] v by (simp add: saveHost_def)
  also have "\<dots> = Some (saveHost (Some ?h) [])" by (rule parseLines_plain_block[OF assms(4)])
  also have "\<dots> = Some [(?v, ?h)]" by (simp add: saveHost_def newHost_def)
  finally have p: "parseSSHConfig n e content basePath [] = Some [(?v, ?h)]" .
  have "t \<noteq> ?v" if "t \<in> set ts" for t
  proof
    assume "t = ?v"
    with jsJoin_has_space[OF assms(2)] have "CHR '' '' \<in> set t" by simp
    moreover from that assms(1) have "isWord t" by (simp add: list_all_iff)
    ultimately show False by (auto simp: isWord_def list_all_iff isWhiteSpace_def)
  qed
  then have l: "list_all (\<lambda>t. map_of [(?v, ?h)] t = None) ts"
    by (auto simp: list_all_iff)
  show ?thesis using p l by simp
qed

theorem host_line_alias_is_joined_value_witness:
  "list_all isWord [''web'', ''db''] \<and> (2::nat) \<le> length [''web'', ''db'']
   \<and> jsSplit (CHR 0x0A) (''Host web db'' @ [CHR 0x0A] @ ''  User u'') = (''Host '' @ jsJoin '' '' [''web'', ''db'']) # [''  User u'']
   \<and> list_all (\<lambda>x. \<not> isHostLine x \<and> \<not> isIncludeLine x) [''  User u'']
   \<and> parseSSHConfig 0 noFilesEnv (''Host web db'' @ [CHR 0x0A] @ ''  User u'') ''/home/u/.ssh/config'' []
       = Some [(''web db'', (newHost ''web db'')\<lparr>user := Some ''u''\<rparr>)]
   \<and> map_of [(''web db'', (newHost ''web db'')\<lparr>user := Some ''u''\<rparr>)] ''web'' = None
   \<and> map_of [(''web db'', (newHost ''web db'')\<lparr>user := Some ''u''\<rparr>)] ''db'' = None"
proof -
  have a: "list_all isWord [''web'', ''db'']" by code_simp
  have b: "(2::nat) \<le> length [''web'', ''db'']" by simp
  have c: "jsSplit (CHR 0x0A) (''Host web db'' @ [CHR 0x0A] @ ''  User u'') = (''Host '' @ jsJoin '' '' [''web'', ''db'']) # [''  User u'']"
    by code_simp
  have d: "list_all (\<lambda>x. \<not> isHostLine x \<and> \<not> isIncludeLine x) [''  User u'']" by code_simp
  have j: "jsJoin '' '' [''web'', ''db''] = ''web db''" by code_simp
  have f: "foldl (blockLine noFilesEnv) (newHost ''web db'') [''  User u''] = (newHost ''web db'')\<lparr>user := Some ''u''\<rparr>"
    by code_simp
  note t = host_line_alias_is_joined_value[OF a b c d, of 0 noFilesEnv "''/home/u/.ssh/config''"]
  from t have "parseSSHConfig 0 noFilesEnv (''Host web db'' @ [CHR 0x0A] @ ''  User u'') ''/home/u/.ssh/config'' []
       = Some [(''web db'', (newHost ''web db'')\<lparr>user := Some ''u''\<rparr>)]
     \<and> list_all (\<lambda>t. map_of [(''web db'', (newHost ''web db'')\<lparr>user := Some ''u''\<rparr>)] t = None) [''web'', ''db'']"
    by (simp only: j f simp_thms)
  with a b c d show ?thesis by simp
qed

text \<open>
  Claim C9 as stated fails: the first word of a \<open>Host\<close> line with two words is not a key
  of the registry.
\<close>

theorem first_token_is_not_the_alias:
  "parseSSHConfig 0 noFilesEnv ''Host web db'' ''/home/u/.ssh/config'' []
     = Some [(''web db'', newHost ''web db'')]
   \<and> map_option (\<lambda>r. map_of r ''web'') (parseSSHConfig 0 noFilesEnv ''Host web db'' ''/home/u/.ssh/config'' [])
     = Some None"
  by code_simp

section \<open>The parser: termination\<close>

declare parseSSHConfig.simps [simp del]

text \<open>Fuel only bounds the nesting: a parse that returns with some fuel returns the same
  registry with more.\<close>

lemma parseLines_more_fuel:
  assumes inc: "\<And>p hosts r. handleInclude n e p b hosts = Some r \<Longrightarrow> handleInclude (n + k) e p b hosts = Some r"
  shows "parseLines n e b ls cur hosts = Some r \<Longrightarrow> parseLines (n + k) e b ls cur hosts = Some r"
proof (induction ls arbitrary: cur hosts)
  case Nil then show ?case by simp
next
  case (Cons l ls)
  show ?case
  proof (cases "parseLine e l cur hosts")
    case (Inl p)
    with Cons.prems obtain r1 where r1: "handleInclude n e p b hosts = Some r1"
        "parseLines n e b ls cur r1 = Some r"
      by (cases "handleInclude n e p b hosts") simp_all
    from inc[OF r1(1)] Cons.IH[OF r1(2)] Inl show ?thesis by simp
  next
    case (Inr st)
    obtain cur1 hosts1 where st: "st = (cur1, hosts1)" by (cases st)
    with Inr Cons.prems have "parseLines n e b ls cur1 hosts1 = Some r" by simp
    from Cons.IH[OF this] Inr st show ?thesis by simp
  qed
qed

lemma includeFiles_more_fuel:
  assumes par: "\<And>c t hosts r. parseSSHConfig m e c t hosts = Some r \<Longrightarrow> parseSSHConfig (m + k) e c t hosts = Some r"
  shows "includeFiles m e files hosts = Some r \<Longrightarrow> includeFiles (m + k) e files hosts = Some r"
proof (induction files arbitrary: hosts)
  case Nil then show ?case by simp
next
  case (Cons t files)
  show ?case
  proof (cases "readFile e t")
    case None
    with Cons.prems Cons.IH[of hosts] show ?thesis by simp
  next
    case (Some c)
    with Cons.prems obtain r1 where r1: "parseSSHConfig m e c t hosts = Some r1"
        "includeFiles m e files r1 = Some r"
      by (cases "parseSSHConfig m e c t hosts") simp_all
    from par[OF r1(1)] Cons.IH[OF r1(2)] Some show ?thesis by simp
  qed
qed

lemma handleInclude_more_fuel:
  "handleInclude n e p b hosts = Some r \<Longrightarrow> handleInclude (n + k) e p b hosts = Some r"
proof (induction n arbitrary: p b hosts r)
  case 0 then show ?case by simp
next
  case (Suc m)
  have par: "parseSSHConfig (m + k) e c t h = Some r'" if "parseSSHConfig m e c t h = Some r'" for c t h r'
  proof -
    from that have "parseLines m e t (jsSplit (CHR 0x0A) c) None h = Some r'"
      by (simp only: parseSSHConfig.simps)
    then have "parseLines (m + k) e t (jsSplit (CHR 0x0A) c) None h = Some r'"
      by (rule parseLines_more_fuel[rotated, OF _ Suc.IH])
    then show ?thesis by (simp only: parseSSHConfig.simps)
  qed
  let ?full = "resolveInclude e p b"
  show ?case
  proof (cases "CHR ''*'' \<in> set ?full")
    case True
    show ?thesis
    proof (cases "glob e ?full")
      case None
      with True Suc.prems show ?thesis by (simp add: Let_def)
    next
      case (Some files)
      with True Suc.prems have "includeFiles m e files hosts = Some r" by (simp add: Let_def)
      from includeFiles_more_fuel[OF par this] True Some show ?thesis by (simp add: Let_def)
    qed
  next
    case False
    show ?thesis
    proof (cases "readFile e ?full")
      case None
      with False Suc.prems show ?thesis by (simp add: Let_def)
    next
      case (Some c)
      with False Suc.prems have "parseSSHConfig m e c ?full hosts = Some r" by (simp add: Let_def)
      from par[OF this] False Some show ?thesis by (simp add: Let_def)
    qed
  qed
qed

lemma parseSSHConfig_more_fuel:
  "parseSSHConfig n e c b hosts = Some r \<Longrightarrow> parseSSHConfig (n + k) e c b hosts = Some r"
proof -
  assume "parseSSHConfig n e c b hosts = Some r"
  then have "parseLines n e b (jsSplit (CHR 0x0A) c) None hosts = Some r"
    by (simp only: parseSSHConfig.simps)
  then have "parseLines (n + k) e b (jsSplit (CHR 0x0A) c) None hosts = Some r"
    by (rule parseLines_more_fuel[rotated, OF _ handleInclude_more_fuel])
  then show ?thesis by (simp only: parseSSHConfig.simps)
qed

lemma includeFiles_returns:
  "(\<And>t c hosts. t \<in> set files \<Longrightarrow> readFile e t = Some c \<Longrightarrow> parseSSHConfig m e c t hosts \<noteq> None)
   \<Longrightarrow> includeFiles m e files hosts \<noteq> None"
proof (induction files arbitrary: hosts)
  case Nil then show ?case by simp
next
  case (Cons t files)
  have rest: "includeFiles m e files hosts' \<noteq> None" for hosts'
    by (rule Cons.IH) (simp add: Cons.prems)
  show ?case
  proof (cases "readFile e t")
    case None
    with rest show ?thesis by simp
  next
    case (Some c)
    with Cons.prems[of t c hosts] obtain r where "parseSSHConfig m e c t hosts = Some r" by auto
    with Some rest[of r] show ?thesis by (simp)
  qed
qed

lemma parseLines_returns:
  "(\<And>l hosts. l \<in> set ls \<Longrightarrow> isIncludeLine l \<Longrightarrow>
      handleInclude n e (trim (drop 8 (trim l))) b hosts \<noteq> None)
   \<Longrightarrow> parseLines n e b ls cur hosts \<noteq> None"
proof (induction ls arbitrary: cur hosts)
  case Nil then show ?case by simp
next
  case (Cons l ls)
  have rest: "parseLines n e b ls cur' hosts' \<noteq> None" for cur' hosts'
    by (rule Cons.IH) (simp add: Cons.prems)
  show ?case
  proof (cases "isIncludeLine l")
    case True
    with Cons.prems[of l hosts] obtain r where
      "handleInclude n e (trim (drop 8 (trim l))) b hosts = Some r" by auto
    with True rest[of cur r] show ?thesis by (simp add: parseLine_include)
  next
    case False
    show ?thesis
    proof (cases "isHostLine l")
      case True
      with rest show ?thesis by (simp add: parseLine_host)
    next
      case nh: False
      with False rest show ?thesis by (simp add: parseLine_block)
    qed
  qed
qed

lemma includeTargets_plain:
  "l \<in> set (jsSplit (CHR 0x0A) c) \<Longrightarrow> isIncludeLine l \<Longrightarrow>
   CHR ''*'' \<notin> set (resolveInclude e (trim (drop 8 (trim l))) f) \<Longrightarrow>
   resolveInclude e (trim (drop 8 (trim l))) f \<in> set (includeTargets e c f)"
  unfolding includeTargets_def by (auto simp: Let_def intro!: bexI[of _ l])

lemma includeTargets_glob:
  "l \<in> set (jsSplit (CHR 0x0A) c) \<Longrightarrow> isIncludeLine l \<Longrightarrow>
   CHR ''*'' \<in> set (resolveInclude e (trim (drop 8 (trim l))) f) \<Longrightarrow>
   glob e (resolveInclude e (trim (drop 8 (trim l))) f) = Some files \<Longrightarrow> t \<in> set files \<Longrightarrow>
   t \<in> set (includeTargets e c f)"
  unfolding includeTargets_def by (auto simp: Let_def intro!: bexI[of _ l])

lemma parse_returns_below_rank:
  assumes rank: "\<And>f c t. readFile e f = Some c \<Longrightarrow> t \<in> set (includeTargets e c f) \<Longrightarrow>
                   readFile e t \<noteq> None \<Longrightarrow> rank t < rank f"
  shows "readFile e f = Some c \<Longrightarrow> rank f < n \<Longrightarrow> parseSSHConfig n e c f hosts \<noteq> None"
proof (induction n arbitrary: f c hosts)
  case 0 then show ?case by simp
next
  case (Suc m)
  have inc: "handleInclude (Suc m) e (trim (drop 8 (trim l))) f hosts' \<noteq> None"
    if l: "l \<in> set (jsSplit (CHR 0x0A) c)" "isIncludeLine l" for l hosts'
  proof -
    let ?full = "resolveInclude e (trim (drop 8 (trim l))) f"
    show ?thesis
    proof (cases "CHR ''*'' \<in> set ?full")
      case True
      show ?thesis
      proof (cases "glob e ?full")
        case None
        with True show ?thesis by (simp add: Let_def)
      next
        case (Some files)
        have "includeFiles m e files hosts' \<noteq> None"
        proof (rule includeFiles_returns)
          fix t c' hosts''
          assume t: "t \<in> set files" "readFile e t = Some c'"
          from includeTargets_glob[OF l True Some t(1)] have "t \<in> set (includeTargets e c f)" .
          from rank[OF Suc.prems(1) this] t(2) have "rank t < rank f" by simp
          with Suc.prems(2) have "rank t < m" by simp
          from Suc.IH[OF t(2) this] show "parseSSHConfig m e c' t hosts'' \<noteq> None" .
        qed
        with True Some show ?thesis by (simp add: Let_def)
      qed
    next
      case False
      show ?thesis
      proof (cases "readFile e ?full")
        case None
        with False show ?thesis by (simp add: Let_def)
      next
        case (Some c')
        from includeTargets_plain[OF l False] have "?full \<in> set (includeTargets e c f)" .
        from rank[OF Suc.prems(1) this] Some have "rank ?full < rank f" by simp
        with Suc.prems(2) have "rank ?full < m" by simp
        from Suc.IH[OF Some this] have "parseSSHConfig m e c' ?full hosts' \<noteq> None" .
        with False Some show ?thesis by (simp add: Let_def)
      qed
    qed
  qed
  have "parseLines (Suc m) e f (jsSplit (CHR 0x0A) c) None hosts \<noteq> None"
    by (rule parseLines_returns) (rule inc)
  then show ?case by (simp add: parseSSHConfig.simps)
qed

text \<open>
  Claim C2, as amended. No set of visited paths is threaded through the parse. The parse
  call tree terminates for every configuration tree without a cycle of \<open>Include\<close>
  directives: when some rank of the files decreases along every \<open>Include\<close> that opens a
  readable file, the parse of a readable file returns, with fuel just above the file's
  rank.
\<close>

theorem parse_terminates_without_cycle:
  assumes "\<And>f c t. readFile e f = Some c \<Longrightarrow> t \<in> set (includeTargets e c f) \<Longrightarrow>
             readFile e t \<noteq> None \<Longrightarrow> rank t < rank f"
    and "readFile e f = Some c"
  shows "parseSSHConfig (Suc (rank f)) e c f sshHosts \<noteq> None"
  using parse_returns_below_rank[of e rank f c "Suc (rank f)" sshHosts] assms by blast

theorem parse_terminates_without_cycle_witness:
  "readFile chainEnv ''/home/u/.ssh/config'' = Some ''Include extra''
   \<and> includeTargets chainEnv ''Include extra'' ''/home/u/.ssh/config'' = [''/home/u/.ssh/extra'']
   \<and> includeTargets chainEnv ''Host a'' ''/home/u/.ssh/extra'' = []
   \<and> chainRank ''/home/u/.ssh/extra'' < chainRank ''/home/u/.ssh/config''
   \<and> parseSSHConfig (Suc (chainRank ''/home/u/.ssh/config'')) chainEnv ''Include extra'' ''/home/u/.ssh/config'' [] \<noteq> None
   \<and> parseSSHConfig 2 chainEnv ''Include extra'' ''/home/u/.ssh/config'' [] = Some [(''a'', newHost ''a'')]"
proof -
  have r: "readFile chainEnv ''/home/u/.ssh/config'' = Some ''Include extra''" by code_simp
  have t1: "includeTargets chainEnv ''Include extra'' ''/home/u/.ssh/config'' = [''/home/u/.ssh/extra'']"
    by code_simp
  have t2: "includeTargets chainEnv ''Host a'' ''/home/u/.ssh/extra'' = []" by code_simp
  have k: "chainRank ''/home/u/.ssh/extra'' < chainRank ''/home/u/.ssh/config''" by code_simp
  have h: "rank t < chainRank f" if "readFile chainEnv f = Some c" "t \<in> set (includeTargets chainEnv c f)"
      "readFile chainEnv t \<noteq> None" and "rank = chainRank" for f c t rank
  proof -
    from that(1) have "(f = ''/home/u/.ssh/config'' \<and> c = ''Include extra'') \<or> (f = ''/home/u/.ssh/extra'' \<and> c = ''Host a'')"
      by (auto simp: chainEnv_def split: if_splits)
    with that(2) t1 t2 have "f = ''/home/u/.ssh/config'' \<and> t = ''/home/u/.ssh/extra''" by auto
    with k that(4) show ?thesis by simp
  qed
  have p: "parseSSHConfig (Suc (chainRank ''/home/u/.ssh/config'')) chainEnv ''Include extra'' ''/home/u/.ssh/config'' [] \<noteq> None"
    by (rule parse_terminates_without_cycle[of chainEnv chainRank, OF _ r]) (rule h[OF _ _ _ refl])
  have v: "parseSSHConfig 2 chainEnv ''Include extra'' ''/home/u/.ssh/config'' [] = Some [(''a'', newHost ''a'')]"
    by code_simp
  from r t1 t2 k p v show ?thesis by blast
qed

text \<open>
  Claim C2 as stated fails: a primary configuration file that includes itself is parsed
  again at every level of the recursion, and the load never returns.
\<close>

lemma self_include_diverges:
  "parseSSHConfig n selfIncludeEnv ''Include config'' ''/home/u/.ssh/config'' hosts = None"
proof (induction n arbitrary: hosts)
  case 0
  have "parseLine selfIncludeEnv ''Include config'' None hosts = Inl ''config''"
    by (rule trans[OF parseLine_include]) code_simp+
  moreover have "jsSplit (CHR 0x0A) ''Include config'' = [''Include config'']" by code_simp
  ultimately show ?case by (simp add: parseSSHConfig.simps del: jsSplit.simps)
next
  case (Suc n)
  have l: "parseLine selfIncludeEnv ''Include config'' None hosts = Inl ''config''"
    by (rule trans[OF parseLine_include]) code_simp+
  have s: "jsSplit (CHR 0x0A) ''Include config'' = [''Include config'']" by code_simp
  have r: "resolveInclude selfIncludeEnv ''config'' ''/home/u/.ssh/config'' = ''/home/u/.ssh/config''"
    by code_simp
  have f: "readFile selfIncludeEnv ''/home/u/.ssh/config'' = Some ''Include config''" by code_simp
  have "handleInclude (Suc n) selfIncludeEnv ''config'' ''/home/u/.ssh/config'' hosts = None"
    using Suc.IH[of hosts] by (simp add: r f Let_def)
  then have "parseLines (Suc n) selfIncludeEnv ''/home/u/.ssh/config'' [''Include config''] None hosts = None"
    by (simp add: l)
  then show ?case by (simp only: parseSSHConfig.simps s)
qed

theorem self_include_never_returns: "\<not> loadReturns selfIncludeEnv"
proof -
  have p: "join [homedir selfIncludeEnv, ''.ssh'', ''config''] = ''/home/u/.ssh/config''" by code_simp
  have f: "readFile selfIncludeEnv ''/home/u/.ssh/config'' = Some ''Include config''" by code_simp
  have "loadSSHConfig n selfIncludeEnv = None" for n
    unfolding loadSSHConfig_def Let_def p f using self_include_diverges[of n "[]"]
    by (simp)
  then show ?thesis by (simp add: loadReturns_def)
qed

section \<open>The parser: resolution of Include paths\<close>




















section \<open>The parser: Port lines\<close>

lemma withoutPort_host [simp]: "host (withoutPort h) = host h"
  by (simp add: withoutPort_def)

lemma erasePorts_update:
  "erasePorts (AList.update k h r) = AList.update k (withoutPort h) (erasePorts r)"
  by (induction r) (auto simp: erasePorts_def)

lemma setProperty_withoutPort:
  "withoutPort (setProperty e k v h) = withoutPort (setProperty e k v (withoutPort h))"
  by (simp add: setProperty_def withoutPort_def)

lemma blockLine_withoutPort:
  assumes "withoutPort h = withoutPort h2"
  shows "withoutPort (blockLine e h l) = withoutPort (blockLine e h2 l)"
proof (cases "directive l")
  case None
  with assms show ?thesis by (simp add: blockLine_def)
next
  case (Some kv)
  obtain k v where kv: "kv = (k, v)" by (cases kv)
  have "withoutPort (setProperty e k v h) = withoutPort (setProperty e k v (withoutPort h))"
    by (rule setProperty_withoutPort)
  also have "\<dots> = withoutPort (setProperty e k v (withoutPort h2))" by (simp only: assms)
  also have "\<dots> = withoutPort (setProperty e k v h2)" by (rule setProperty_withoutPort[symmetric])
  finally have "withoutPort (setProperty e k v h) = withoutPort (setProperty e k v h2)" .
  with Some kv assms show ?thesis by (simp add: blockLine_def)
qed

lemma saveHost_erase:
  assumes "map_option withoutPort cur = map_option withoutPort cur2"
    and "erasePorts hosts = erasePorts hosts2"
  shows "erasePorts (saveHost cur hosts) = erasePorts (saveHost cur2 hosts2)"
proof (cases cur)
  case None
  with assms show ?thesis by (simp add: saveHost_def)
next
  case (Some h)
  with assms(1) obtain h2 where h2: "cur2 = Some h2" "withoutPort h = withoutPort h2"
    by (cases cur2) auto
  then have "host h = host h2" by (metis withoutPort_host)
  with Some h2 assms(2) show ?thesis by (simp add: saveHost_def erasePorts_update)
qed

lemma parseLines_erase:
  assumes inc: "\<And>p hosts hosts2. erasePorts hosts = erasePorts hosts2 \<Longrightarrow>
      map_option erasePorts (handleInclude n e p b hosts) = map_option erasePorts (handleInclude n e p b hosts2)"
  shows "map_option withoutPort cur = map_option withoutPort cur2 \<Longrightarrow> erasePorts hosts = erasePorts hosts2 \<Longrightarrow>
         map_option erasePorts (parseLines n e b ls cur hosts) = map_option erasePorts (parseLines n e b ls cur2 hosts2)"
proof (induction ls arbitrary: cur cur2 hosts hosts2)
  case Nil
  from saveHost_erase[OF Nil.prems] show ?case by simp
next
  case (Cons l ls)
  show ?case
  proof (cases "isIncludeLine l")
    case True
    let ?p = "trim (drop 8 (trim l))"
    from inc[OF Cons.prems(2), of ?p]
    have i: "map_option erasePorts (handleInclude n e ?p b hosts) = map_option erasePorts (handleInclude n e ?p b hosts2)" .
    show ?thesis
    proof (cases "handleInclude n e ?p b hosts")
      case None
      with i have "handleInclude n e ?p b hosts2 = None" by simp
      with None True show ?thesis by (simp add: parseLine_include)
    next
      case (Some r)
      with i obtain r2 where r2: "handleInclude n e ?p b hosts2 = Some r2" "erasePorts r = erasePorts r2"
        by (cases "handleInclude n e ?p b hosts2") auto
      from Cons.IH[OF Cons.prems(1) r2(2)] Some r2(1) True show ?thesis
        by (simp add: parseLine_include)
    qed
  next
    case False
    show ?thesis
    proof (cases "isHostLine l")
      case True
      have "map_option withoutPort (Some (newHost (hostLineValue l))) = map_option withoutPort (Some (newHost (hostLineValue l)))"
        by simp
      from Cons.IH[OF this saveHost_erase[OF Cons.prems]] True show ?thesis
        by (simp add: parseLine_host)
    next
      case nh: False
      have "map_option withoutPort (map_option (\<lambda>h. blockLine e h l) cur)
            = map_option withoutPort (map_option (\<lambda>h. blockLine e h l) cur2)"
      proof (cases cur)
        case None
        with Cons.prems(1) show ?thesis by simp
      next
        case (Some h)
        with Cons.prems(1) obtain h2 where "cur2 = Some h2" "withoutPort h = withoutPort h2"
          by (cases cur2) auto
        with Some blockLine_withoutPort[of h h2 e l] show ?thesis by simp
      qed
      from Cons.IH[OF this Cons.prems(2)] False nh show ?thesis
        by (simp add: parseLine_block)
    qed
  qed
qed

lemma includeFiles_erase:
  assumes par: "\<And>c t hosts hosts2. erasePorts hosts = erasePorts hosts2 \<Longrightarrow>
      map_option erasePorts (parseSSHConfig m e c t hosts) = map_option erasePorts (parseSSHConfig m e c t hosts2)"
  shows "erasePorts hosts = erasePorts hosts2 \<Longrightarrow>
         map_option erasePorts (includeFiles m e files hosts) = map_option erasePorts (includeFiles m e files hosts2)"
proof (induction files arbitrary: hosts hosts2)
  case Nil
  then show ?case by simp
next
  case (Cons t files)
  show ?case
  proof (cases "readFile e t")
    case None
    with Cons.IH[OF Cons.prems] show ?thesis by simp
  next
    case (Some c)
    note i = par[OF Cons.prems, of c t]
    show ?thesis
    proof (cases "parseSSHConfig m e c t hosts")
      case None
      with i have "parseSSHConfig m e c t hosts2 = None" by simp
      with None Some show ?thesis by simp
    next
      case r: (Some r)
      with i obtain r2 where r2: "parseSSHConfig m e c t hosts2 = Some r2" "erasePorts r = erasePorts r2"
        by (cases "parseSSHConfig m e c t hosts2") auto
      from Cons.IH[OF r2(2)] r r2(1) Some show ?thesis by simp
    qed
  qed
qed

lemma handleInclude_erase:
  "erasePorts hosts = erasePorts hosts2 \<Longrightarrow>
   map_option erasePorts (handleInclude n e p b hosts) = map_option erasePorts (handleInclude n e p b hosts2)"
proof (induction n arbitrary: p b hosts hosts2)
  case 0
  then show ?case by simp
next
  case (Suc m)
  have par: "map_option erasePorts (parseSSHConfig m e c t h) = map_option erasePorts (parseSSHConfig m e c t h2)"
    if "erasePorts h = erasePorts h2" for c t h h2
    unfolding parseSSHConfig.simps
    by (rule parseLines_erase[OF Suc.IH _ that]) simp_all
  let ?full = "resolveInclude e p b"
  show ?case
  proof (cases "CHR ''*'' \<in> set ?full")
    case True
    show ?thesis
    proof (cases "glob e ?full")
      case None
      with True Suc.prems show ?thesis by (simp add: Let_def)
    next
      case (Some files)
      from includeFiles_erase[OF par Suc.prems, of files] True Some show ?thesis
        by (simp add: Let_def)
    qed
  next
    case False
    show ?thesis
    proof (cases "readFile e ?full")
      case None
      with False Suc.prems show ?thesis by (simp add: Let_def)
    next
      case (Some c)
      from par[OF Suc.prems, of c ?full] False Some show ?thesis by (simp add: Let_def)
    qed
  qed
qed

lemma parseLines_erase_all:
  "map_option withoutPort cur = map_option withoutPort cur2 \<Longrightarrow> erasePorts hosts = erasePorts hosts2 \<Longrightarrow>
   map_option erasePorts (parseLines n e b ls cur hosts) = map_option erasePorts (parseLines n e b ls cur2 hosts2)"
  by (rule parseLines_erase[OF handleInclude_erase])

text \<open>A \<open>Port\<close> line with a value.\<close>

lemma port_line:
  assumes "directive l = Some (''port'', v)" and "v \<noteq> []"
  shows "\<not> isIncludeLine l" and "\<not> isHostLine l" and "blockLine e h l = h\<lparr>port := Some (parseInt v)\<rparr>"
proof -
  from assms(1) show "\<not> isIncludeLine l"
    by (auto simp: directive_def isIncludeLine_def Let_def split: if_splits)
  from assms(1) show "\<not> isHostLine l" by (simp add: isHostLine_def)
  from assms show "blockLine e h l = h\<lparr>port := Some (parseInt v)\<rparr>"
    by (simp add: blockLine_def setProperty_def)
qed

lemma port_line_dropped:
  assumes "directive l = Some (''port'', v)" and "v \<noteq> []"
  shows "map_option erasePorts (parseLines n e b (pre @ l # post) cur hosts)
         = map_option erasePorts (parseLines n e b (pre @ post) cur hosts)"
proof (induction pre arbitrary: cur hosts)
  case Nil
  note pl = port_line[OF assms]
  have "map_option withoutPort (map_option (\<lambda>h. blockLine e h l) cur) = map_option withoutPort cur"
    by (cases cur) (simp_all add: pl(3) withoutPort_def)
  from parseLines_erase_all[OF this refl] pl(1,2) show ?case by (simp add: parseLine_block)
next
  case (Cons x pre)
  show ?case
  proof (cases "parseLine e x cur hosts")
    case (Inl p)
    then show ?thesis using Cons.IH by (cases "handleInclude n e p b hosts") simp_all
  next
    case (Inr st)
    then show ?thesis using Cons.IH by (cases st) simp
  qed
qed

lemma starts_with_digit:
  "(case xs of [] \<Rightarrow> False | c # cs \<Rightarrow> P c) \<longleftrightarrow> takeWhile P xs \<noteq> []"
  by (cases xs) auto

lemma toNumber_not_NaN: "toNumber negative k \<noteq> NaN"
  by (simp add: toNumber_def split: option.splits)

lemma parseInt_NaN_iff: "parseInt v = NaN \<longleftrightarrow> \<not> startsWithInteger v"
  unfolding parseInt_def startsWithInteger_def Let_def starts_with_digit
  by (simp add: toNumber_not_NaN)

text \<open>The value read from decimal digits.\<close>

lemma digitValue_decimal:
  "digitValue 10 c = (if isDecimalDigit c then Some (of_char c - 48) else None)"
  by (auto simp: digitValue_def isDecimalDigit_def Let_def)

lemma digit_plain:
  "isDecimalDigit c \<Longrightarrow> \<not> isWhiteSpace c \<and> c \<noteq> CHR ''-'' \<and> c \<noteq> CHR ''+''"
  by (auto simp: isDecimalDigit_def isWhiteSpace_def)

lemma takeWhile_digits:
  assumes "list_all isDecimalDigit ds" and "case rest of [] \<Rightarrow> True | c # cs \<Rightarrow> \<not> isDecimalDigit c"
  shows "takeWhile (\<lambda>c. digitValue 10 c \<noteq> None) (ds @ rest) = ds"
proof -
  have a: "\<And>x. x \<in> set ds \<Longrightarrow> digitValue 10 x \<noteq> None"
    using assms(1) by (auto simp: list_all_iff digitValue_decimal)
  have b: "takeWhile (\<lambda>c. digitValue 10 c \<noteq> None) rest = []"
    using assms(2) by (cases rest) (simp_all add: digitValue_decimal)
  show ?thesis using a b by (simp add: takeWhile_append2)
qed

lemma foldl_digits:
  "list_all isDecimalDigit ds \<Longrightarrow>
   foldl (\<lambda>acc c. acc * int 10 + (case digitValue 10 c of None \<Rightarrow> 0 | Some d \<Rightarrow> int d)) a ds
     = foldl (\<lambda>acc c. acc * 10 + (int (of_char c) - 48)) a ds"
proof (induction ds arbitrary: a)
  case Nil then show ?case by simp
next
  case (Cons c ds)
  then have d: "isDecimalDigit c" and r: "list_all isDecimalDigit ds" by simp_all
  from d have "48 \<le> (of_char c :: nat)" by (simp add: isDecimalDigit_def)
  then have "int (of_char c - 48) = int (of_char c) - 48" by simp
  with d Cons.IH[OF r] show ?case by (simp add: digitValue_decimal)
qed

lemma parseInt_decimal:
  assumes "sign = [] \<or> sign = ''+'' \<or> sign = ''-''" and "ds \<noteq> []" and "list_all isDecimalDigit ds"
    and "case rest of [] \<Rightarrow> True | c # cs \<Rightarrow> \<not> isDecimalDigit c"
    and "\<not> startsWith (ds @ rest) ''0x''" and "\<not> startsWith (ds @ rest) ''0X''"
  shows "parseInt (sign @ ds @ rest) = toNumber (sign = ''-'') (decimalValue ds)"
proof -
  obtain d ds' where ds: "ds = d # ds'" using assms(2) by (cases ds) auto
  with assms(3) have d: "isDecimalDigit d" by simp
  note p = digit_plain[OF d]
  have w: "dropWhile isWhiteSpace (sign @ ds @ rest) = sign @ ds @ rest"
    using assms(1) p ds by (auto simp: isWhiteSpace_def)
  have n: "startsWith (sign @ ds @ rest) ''-'' = (sign = ''-'')"
    using assms(1) p ds by (auto simp: startsWith_def)
  have s: "(if sign = ''-'' \<or> startsWith (sign @ ds @ rest) ''+''
            then drop 1 (sign @ ds @ rest) else sign @ ds @ rest) = ds @ rest"
    using assms(1) p ds by (auto simp: startsWith_def)
  have h: "(startsWith (ds @ rest) ''0x'' \<or> startsWith (ds @ rest) ''0X'') = False"
    using assms(5,6) by simp
  have t: "takeWhile (\<lambda>c. digitValue 10 c \<noteq> None) (ds @ rest) = ds"
    by (rule takeWhile_digits[OF assms(3,4)])
  have "parseInt (sign @ ds @ rest) = (if ds = [] then NaN else toNumber (sign = ''-'') (decimalValue ds))"
    unfolding parseInt_def Let_def w n s h if_False t foldl_digits[OF assms(3)] decimalValue_def
    by (rule refl)
  then show ?thesis using assms(2) by simp
qed

lemma excessBits_small: "k < 2 ^ 53 \<Longrightarrow> excessBits k = 0"
  by (simp add: excessBits.simps)

lemma toNumber_exact:
  assumes "0 \<le> k" and "k < 2 ^ 53"
  shows "toNumber negative k = Num (if negative then - k else k)"
proof -
  have "k < 2 ^ 1024" using assms(2) by (rule less_trans) simp
  then show ?thesis
    by (simp add: toNumber_def roundToDouble_def Let_def excessBits_small[OF assms(2)])
qed

lemma decimalValue_nonneg: "list_all isDecimalDigit ds \<Longrightarrow> 0 \<le> a \<Longrightarrow> 0 \<le> foldl (\<lambda>acc c. acc * 10 + (int (of_char c) - 48)) a ds"
proof (induction ds arbitrary: a)
  case Nil then show ?case by simp
next
  case (Cons c ds)
  then have "48 \<le> (of_char c :: nat)" by (simp add: isDecimalDigit_def)
  then have "0 \<le> a * 10 + (int (of_char c) - 48)" using Cons.prems(2) by simp
  from Cons.IH[OF _ this] Cons.prems(1) show ?case by simp
qed

text \<open>The value read from hexadecimal digits.\<close>

lemma digitValue_hex_iff: "digitValue 16 c \<noteq> None \<longleftrightarrow> isHexDigit c"
  by (auto simp: digitValue_def isHexDigit_def Let_def)

lemma digitValue_hexDigit:
  "isHexDigit c \<Longrightarrow> (case digitValue 16 c of None \<Rightarrow> 0 | Some d \<Rightarrow> int d) = hexDigit c"
  by (auto simp: digitValue_def isHexDigit_def hexDigit_def Let_def)

lemma takeWhile_hex:
  assumes "list_all isHexDigit hs" and "case rest of [] \<Rightarrow> True | c # cs \<Rightarrow> \<not> isHexDigit c"
  shows "takeWhile (\<lambda>c. digitValue 16 c \<noteq> None) (hs @ rest) = hs"
proof -
  have a: "digitValue 16 x \<noteq> None" if "x \<in> set hs" for x
  proof -
    from that assms(1) have "isHexDigit x" by (simp add: list_all_iff)
    then show ?thesis by (simp only: digitValue_hex_iff)
  qed
  have b: "takeWhile (\<lambda>c. digitValue 16 c \<noteq> None) rest = []"
  proof (cases rest)
    case Nil then show ?thesis by simp
  next
    case (Cons c cs)
    with assms(2) have "\<not> isHexDigit c" by simp
    with digitValue_hex_iff[of c] have "digitValue 16 c = None" by blast
    with Cons show ?thesis by simp
  qed
  show ?thesis using a b by (simp add: takeWhile_append2)
qed

lemma foldl_hex:
  "list_all isHexDigit hs \<Longrightarrow>
   foldl (\<lambda>acc c. acc * int 16 + (case digitValue 16 c of None \<Rightarrow> 0 | Some d \<Rightarrow> int d)) a hs
     = foldl (\<lambda>acc c. acc * 16 + hexDigit c) a hs"
proof (induction hs arbitrary: a)
  case Nil then show ?case by simp
next
  case (Cons c hs)
  then have d: "isHexDigit c" and r: "list_all isHexDigit hs" by simp_all
  from digitValue_hexDigit[OF d] Cons.IH[OF r] show ?case by simp
qed

lemma parseInt_hex:
  assumes "sign = [] \<or> sign = ''+'' \<or> sign = ''-''" and "prefix = ''0x'' \<or> prefix = ''0X''"
    and "hs \<noteq> []" and "list_all isHexDigit hs"
    and "case rest of [] \<Rightarrow> True | c # cs \<Rightarrow> \<not> isHexDigit c"
  shows "parseInt (sign @ prefix @ hs @ rest) = toNumber (sign = ''-'') (hexValue hs)"
proof -
  have w: "dropWhile isWhiteSpace (sign @ prefix @ hs @ rest) = sign @ prefix @ hs @ rest"
    using assms(1,2) by (auto simp: isWhiteSpace_def)
  have n: "startsWith (sign @ prefix @ hs @ rest) ''-'' = (sign = ''-'')"
    using assms(1,2) by (auto simp: startsWith_def)
  have s: "(if sign = ''-'' \<or> startsWith (sign @ prefix @ hs @ rest) ''+''
            then drop 1 (sign @ prefix @ hs @ rest) else sign @ prefix @ hs @ rest) = prefix @ hs @ rest"
    using assms(1,2) by (auto simp: startsWith_def)
  have h: "(startsWith (prefix @ hs @ rest) ''0x'' \<or> startsWith (prefix @ hs @ rest) ''0X'') = True"
    using assms(2) by (auto simp: startsWith_def)
  have d: "drop 2 (prefix @ hs @ rest) = hs @ rest" using assms(2) by auto
  have t: "takeWhile (\<lambda>c. digitValue 16 c \<noteq> None) (hs @ rest) = hs"
    by (rule takeWhile_hex[OF assms(4,5)])
  have "parseInt (sign @ prefix @ hs @ rest) = (if hs = [] then NaN else toNumber (sign = ''-'') (hexValue hs))"
    unfolding parseInt_def Let_def w n s h if_True d t foldl_hex[OF assms(4)] hexValue_def
    by (rule refl)
  then show ?thesis using assms(3) by simp
qed

text \<open>
  Claim C7, as amended. A \<open>Port\<close> line with a value sets the port of its block to what
  \<open>parseInt\<close> reads from the value: \<open>NaN\<close> exactly when no integer starts the value, and
  otherwise the integer at its start, whatever follows it: for a value that is a sign or
  none, then decimal digits (not the \<open>0\<close> of a prefix \<open>0x\<close>), then something that is
  not a digit, the Number value of the integer that the digits write, which is that
  integer itself below \<open>2^53\<close>; and for a sign or none, then \<open>0x\<close> or \<open>0X\<close>, then
  hexadecimal digits, then something that is not one, the Number value of the integer
  that these digits write in base 16. A \<open>NaN\<close> port is stored, not left absent; \<open>listHosts\<close>
  reports the default for it as it does for an absent port. The parse of the rest of
  the document does not depend on the line: up to the \<open>port\<close> fields of the records, the
  document parses to the same registry as the document without the line (and returns
  for the same fuel).
\<close>

theorem port_line_stores_parseInt:
  assumes "directive l = Some (''port'', v)" and "v \<noteq> []"
    and "jsSplit (CHR 0x0A) content = pre @ l # post"
    and "jsSplit (CHR 0x0A) content' = pre @ post"
    and "sign = [] \<or> sign = ''+'' \<or> sign = ''-''" and "ds \<noteq> []" and "list_all isDecimalDigit ds"
    and "case rest of [] \<Rightarrow> True | c # cs \<Rightarrow> \<not> isDecimalDigit c"
    and "\<not> startsWith (ds @ rest) ''0x''" and "\<not> startsWith (ds @ rest) ''0X''"
    and "prefix = ''0x'' \<or> prefix = ''0X''" and "hs \<noteq> []" and "list_all isHexDigit hs"
    and "case tail of [] \<Rightarrow> True | c # cs \<Rightarrow> \<not> isHexDigit c"
  shows "parseLine e l (Some h) sshHosts = Inr (Some (h\<lparr>port := Some (parseInt v)\<rparr>), sshHosts)
       \<and> (parseInt v = NaN) = (\<not> startsWithInteger v)
       \<and> parseInt (sign @ ds @ rest) = toNumber (sign = ''-'') (decimalValue ds)
       \<and> (decimalValue ds < 2 ^ 53 \<longrightarrow>
            parseInt (sign @ ds @ rest) = Num (if sign = ''-'' then - decimalValue ds else decimalValue ds))
       \<and> parseInt (sign @ prefix @ hs @ tail) = toNumber (sign = ''-'') (hexValue hs)
       \<and> portOrDefault (Some NaN) = portOrDefault None
       \<and> map_option erasePorts (parseSSHConfig n e content basePath sshHosts)
           = map_option erasePorts (parseSSHConfig n e content' basePath sshHosts)"
proof -
  note pl = port_line[OF assms(1,2)]
  have a: "parseLine e l (Some h) sshHosts = Inr (Some (h\<lparr>port := Some (parseInt v)\<rparr>), sshHosts)"
    using pl(1,2) pl(3)[of e h] by (simp add: parseLine_block)
  have b: "portOrDefault (Some NaN) = portOrDefault None" by (simp add: portOrDefault_def)
  have c: "map_option erasePorts (parseSSHConfig n e content basePath sshHosts)
           = map_option erasePorts (parseSSHConfig n e content' basePath sshHosts)"
    using port_line_dropped[OF assms(1,2), of n e basePath pre post None sshHosts]
    by (simp only: parseSSHConfig.simps assms(3,4))
  have d: "parseInt (sign @ ds @ rest) = toNumber (sign = ''-'') (decimalValue ds)"
    by (rule parseInt_decimal[OF assms(5-10)])
  have g: "0 \<le> decimalValue ds"
    unfolding decimalValue_def by (rule decimalValue_nonneg[OF assms(7)]) simp
  have f: "decimalValue ds < 2 ^ 53 \<longrightarrow>
            parseInt (sign @ ds @ rest) = Num (if sign = ''-'' then - decimalValue ds else decimalValue ds)"
    using toNumber_exact[OF g, of "sign = ''-''"] d by simp
  have x: "parseInt (sign @ prefix @ hs @ tail) = toNumber (sign = ''-'') (hexValue hs)"
    by (rule parseInt_hex[OF assms(5,11-14)])
  from a b c d f x parseInt_NaN_iff[of v] show ?thesis by simp
qed

theorem port_line_stores_parseInt_witness:
  "directive ''  Port abc'' = Some (''port'', ''abc'') \<and> ''abc'' \<noteq> []
   \<and> jsSplit (CHR 0x0A) (portDoc ''abc'') = [''Host a''] @ ''  Port abc'' # [''  User u'']
   \<and> jsSplit (CHR 0x0A) (''Host a'' @ [CHR 0x0A] @ ''  User u'') = [''Host a''] @ [''  User u'']
   \<and> list_all isDecimalDigit ''22'' \<and> \<not> startsWith (''22'' @ ''abc'') ''0x'' \<and> \<not> startsWith (''22'' @ ''abc'') ''0X''
   \<and> decimalValue ''22'' = 22
   \<and> list_all isHexDigit ''1F'' \<and> hexValue ''1F'' = 31
   \<and> parseInt ''-0x1Fg'' = Num (- 31)
   \<and> parseInt ''abc'' = NaN
   \<and> parseInt ''-22abc'' = Num (- 22)
   \<and> parseSSHConfig 0 noFilesEnv (portDoc ''abc'') ''/home/u/.ssh/config'' []
       = Some [(''a'', (newHost ''a'')\<lparr>user := Some ''u'', port := Some NaN\<rparr>)]
   \<and> parseSSHConfig 0 noFilesEnv (''Host a'' @ [CHR 0x0A] @ ''  User u'') ''/home/u/.ssh/config'' []
       = Some [(''a'', (newHost ''a'')\<lparr>user := Some ''u''\<rparr>)]
   \<and> erasePorts [(''a'', (newHost ''a'')\<lparr>user := Some ''u'', port := Some NaN\<rparr>)]
       = erasePorts [(''a'', (newHost ''a'')\<lparr>user := Some ''u''\<rparr>)]
   \<and> map hs_port (fst (listHosts [(''a'', (newHost ''a'')\<lparr>user := Some ''u'', port := Some NaN\<rparr>)])) = [Num 22]"
proof -
  have a: "directive ''  Port abc'' = Some (''port'', ''abc'')" by code_simp
  have b: "''abc'' \<noteq> []" by simp
  have c: "jsSplit (CHR 0x0A) (portDoc ''abc'') = [''Host a''] @ ''  Port abc'' # [''  User u'']"
    by code_simp
  have d: "jsSplit (CHR 0x0A) (''Host a'' @ [CHR 0x0A] @ ''  User u'') = [''Host a''] @ [''  User u'']"
    by code_simp
  have s: "''-'' = [] \<or> ''-'' = ''+'' \<or> ''-'' = ''-''" by simp
  have n: "''22'' \<noteq> []" by simp
  have g: "list_all isDecimalDigit ''22''" by (simp add: isDecimalDigit_def)
  have r: "case ''abc'' of [] \<Rightarrow> True | c # cs \<Rightarrow> \<not> isDecimalDigit c" by (simp add: isDecimalDigit_def)
  have x: "\<not> startsWith (''22'' @ ''abc'') ''0x''" by (simp add: startsWith_def)
  have y: "\<not> startsWith (''22'' @ ''abc'') ''0X''" by (simp add: startsWith_def)
  have v: "decimalValue ''22'' = 22" by (simp add: decimalValue_def)
  have hp: "''0x'' = ''0x'' \<or> ''0x'' = ''0X''" by simp
  have hn: "''1F'' \<noteq> []" by simp
  have hd: "list_all isHexDigit ''1F''" by (simp add: isHexDigit_def)
  have ht: "case ''g'' of [] \<Rightarrow> True | c # cs \<Rightarrow> \<not> isHexDigit c" by (simp add: isHexDigit_def)
  have hv: "hexValue ''1F'' = 31" by (simp add: hexValue_def hexDigit_def)
  have tn: "toNumber True 31 = Num (- 31)" by (simp add: toNumber_exact)
  have p: "parseSSHConfig 0 noFilesEnv (portDoc ''abc'') ''/home/u/.ssh/config'' []
       = Some [(''a'', (newHost ''a'')\<lparr>user := Some ''u'', port := Some NaN\<rparr>)]"
    by code_simp
  have q: "parseSSHConfig 0 noFilesEnv (''Host a'' @ [CHR 0x0A] @ ''  User u'') ''/home/u/.ssh/config'' []
       = Some [(''a'', (newHost ''a'')\<lparr>user := Some ''u''\<rparr>)]"
    by code_simp
  have i: "parseInt ''abc'' = NaN" by code_simp
  have l: "map hs_port (fst (listHosts [(''a'', (newHost ''a'')\<lparr>user := Some ''u'', port := Some NaN\<rparr>)])) = [Num 22]"
    by code_simp
  note t = port_line_stores_parseInt[OF a b c d s n g r x y hp hn hd ht, where e=noFilesEnv and n=0
      and basePath="''/home/u/.ssh/config''" and sshHosts="[]"]
  from t have "map_option erasePorts (parseSSHConfig 0 noFilesEnv (portDoc ''abc'') ''/home/u/.ssh/config'' [])
           = map_option erasePorts (parseSSHConfig 0 noFilesEnv (''Host a'' @ [CHR 0x0A] @ ''  User u'') ''/home/u/.ssh/config'' [])"
    by blast
  then have e: "erasePorts [(''a'', (newHost ''a'')\<lparr>user := Some ''u'', port := Some NaN\<rparr>)]
       = erasePorts [(''a'', (newHost ''a'')\<lparr>user := Some ''u''\<rparr>)]"
    by (simp only: p q option.map option.inject)
  from t have "decimalValue ''22'' < 2 ^ 53 \<longrightarrow>
      parseInt (''-'' @ ''22'' @ ''abc'') = Num (if ''-'' = ''-'' then - decimalValue ''22'' else decimalValue ''22'')"
    by blast
  then have m: "parseInt ''-22abc'' = Num (- 22)" unfolding v by simp
  from t have "parseInt (''-'' @ ''0x'' @ ''1F'' @ ''g'') = toNumber (''-'' = ''-'') (hexValue ''1F'')"
    by blast
  then have k: "parseInt ''-0x1Fg'' = Num (- 31)" unfolding hv using tn by simp
  from a b c d g x y v hd hv k i m p q e l show ?thesis by blast
qed

text \<open>
  Claim C7 as stated fails: a value that is not a numeric string but starts with digits
  gives the block a port, and a value without digits leaves \<open>NaN\<close> in the record, which
  is not an absent port. A port beyond \<open>2^53\<close> is stored rounded.
\<close>

theorem non_numeric_port_is_stored:
  "\<not> numericString ''22abc''
   \<and> parseSSHConfig 0 noFilesEnv (portDoc ''22abc'') ''/home/u/.ssh/config'' []
       = Some [(''a'', (newHost ''a'')\<lparr>user := Some ''u'', port := Some (Num 22)\<rparr>)]
   \<and> \<not> numericString ''abc''
   \<and> parseSSHConfig 0 noFilesEnv (portDoc ''abc'') ''/home/u/.ssh/config'' []
       = Some [(''a'', (newHost ''a'')\<lparr>user := Some ''u'', port := Some NaN\<rparr>)]
   \<and> port ((newHost ''a'')\<lparr>user := Some ''u'', port := Some NaN\<rparr>) \<noteq> None
   \<and> toNumber False (decimalValue ''9007199254740993'') = Num 9007199254740992"
proof -
  have a: "\<not> numericString ''22abc''
   \<and> parseSSHConfig 0 noFilesEnv (portDoc ''22abc'') ''/home/u/.ssh/config'' []
       = Some [(''a'', (newHost ''a'')\<lparr>user := Some ''u'', port := Some (Num 22)\<rparr>)]
   \<and> \<not> numericString ''abc''
   \<and> parseSSHConfig 0 noFilesEnv (portDoc ''abc'') ''/home/u/.ssh/config'' []
       = Some [(''a'', (newHost ''a'')\<lparr>user := Some ''u'', port := Some NaN\<rparr>)]
   \<and> port ((newHost ''a'')\<lparr>user := Some ''u'', port := Some NaN\<rparr>) \<noteq> None"
    by code_simp
  have b: "toNumber False (decimalValue ''9007199254740993'') = Num 9007199254740992"
    by code_simp
  from a b show ?thesis by simp
qed

end
